theory Spec2Isabelle
  imports Main "HOL-Library.Sublist"
begin


section \<open>Strings\<close>

text \<open>
  A Python \<open>str\<close> is a sequence of Unicode code points; it is modelled as a list of
  natural numbers (one per code point). \<open>ustr\<close> turns an ASCII literal into such a list.
\<close>

type_synonym ustr = "nat list"

definition ustr :: "string \<Rightarrow> ustr" where
  "ustr s = map of_char s"

text \<open>
  \<open>str.isspace\<close> for one code point; the same class is what \<open>str.strip()\<close> removes and
  what \<open>\s\<close> matches in a \<open>str\<close> pattern.
\<close>

definition is_space :: "nat \<Rightarrow> bool" where
  "is_space c \<longleftrightarrow>
     (9 \<le> c \<and> c \<le> 13) \<or> (28 \<le> c \<and> c \<le> 32) \<or> c = 133 \<or> c = 160 \<or> c = 5760 \<or>
     (8192 \<le> c \<and> c \<le> 8202) \<or> c = 8232 \<or> c = 8233 \<or> c = 8239 \<or> c = 8287 \<or> c = 12288"

text \<open>\<open>s.strip(chars)\<close> with the set of characters given as a predicate.\<close>

definition strip_chars :: "(nat \<Rightarrow> bool) \<Rightarrow> ustr \<Rightarrow> ustr" where
  "strip_chars p s = rev (dropWhile p (rev (dropWhile p s)))"

definition strip :: "ustr \<Rightarrow> ustr" where
  "strip s = strip_chars is_space s"

text \<open>\<open>s.split(sep)\<close> for a one-character separator: never returns the empty list.\<close>

fun split_on :: "nat \<Rightarrow> ustr \<Rightarrow> ustr list" where
  "split_on sep [] = [[]]"
| "split_on sep (c # cs) =
     (if c = sep then [] # split_on sep cs
      else (case split_on sep cs of
              [] \<Rightarrow> [[c]]
            | w # ws \<Rightarrow> (c # w) # ws))"

definition comma :: nat where
  "comma = 44"

section \<open>The persisted schema\<close>

text \<open>
  Rows of the tables of \<open>ensure_schema\<close> (bot.py), with the columns the engine reads or
  writes. BIGINT and TINYINT columns are integers, DATETIME columns are seconds as
  integers, a nullable column is an \<open>option\<close>. A table is the list of its rows.
\<close>

record local_user =
  lu_owner_id :: int
  lu_username :: ustr
  lu_plan_limit_bytes :: int
  lu_used_bytes :: int
  lu_expire_at :: "int option"
  lu_disabled_pushed :: int
  lu_disabled_pushed_at :: "int option"

record agent =
  ag_telegram_user_id :: int
  ag_plan_limit_bytes :: int
  ag_expire_at :: "int option"
  ag_active :: int
  ag_total_used_bytes :: int
  ag_disabled_pushed :: int
  ag_disabled_pushed_at :: "int option"

record panel =
  p_id :: int
  p_telegram_user_id :: int
  p_panel_url :: ustr
  p_access_token :: ustr
  p_panel_type :: ustr

record panel_link =
  l_id :: int
  l_owner_id :: int
  l_local_username :: ustr
  l_panel_id :: int
  l_remote_username :: ustr
  l_last_used_traffic :: int

record agent_panel =
  ap_agent_tg_id :: int
  ap_panel_id :: int

record app_user =
  au_telegram_user_id :: int
  au_username :: ustr
  au_app_key :: ustr

text \<open>A row of \<open>local_user_panel_links JOIN panels\<close>, as the SELECTs return it.\<close>

record link_row =
  r_link_id :: int
  r_owner_id :: int
  r_local_username :: ustr
  r_panel_id :: int
  r_remote_username :: ustr
  r_last_used_traffic :: int
  r_panel_url :: ustr
  r_access_token :: ustr
  r_panel_type :: ustr

section \<open>Remote panels\<close>

datatype api = Marzneshin | Marzban | Sanaei

datatype call_kind = Disable | Enable | ResetUsage

text \<open>One call of the panel adapter: what is asked, of which API, at which panel, for whom.\<close>

datatype api_call = ApiCall call_kind api ustr ustr ustr

text \<open>
  One invocation of \<open>disable_remote\<close> or \<open>enable_remote\<close> with its arguments
  \<open>(panel_type, panel_url, token, remote_username)\<close>.
\<close>

datatype attempt = Attempt call_kind ustr ustr ustr ustr

datatype get_user_result =
    GetErr
  | GetRaise
  | GetObj "int option"

text \<open>
  The world outside the process. \<open>panel_response\<close> is the HTTP status a panel answers to
  a call, given the calls issued so far (\<open>None\<close>: the request raised); the adapters'
  \<open>disable_remote_user\<close>, \<open>enable_remote_user\<close> and \<open>reset_remote_user_usage\<close> return
  \<open>ok\<close> exactly on status 200 and swallow every exception.
  \<open>get_user\<close> is the adapters' account fetch: \<open>GetErr\<close> when it returns no object,
  \<open>GetRaise\<close> when the fetch or the conversion of \<open>used_traffic\<close> raises, \<open>GetObj t\<close> for an
  object whose \<open>used_traffic\<close> is \<open>t\<close> (\<open>None\<close> when absent or null).
  \<open>now\<close> is the clock, \<open>admin_ids\<close> the ADMIN_IDS set in the order \<open>list()\<close> iterates it.
  \<open>collect_links mapped local_username want_html\<close> is what the concurrent fan-out of
  app.py returns for the request, as \<open>(all_links, errors)\<close>: the links arrive in the
  order the worker threads complete. \<open>limit_reached_body owner_id local_username limit used\<close>
  is the placeholder entry of a user over quota (a template from the settings and the
  process environment, filled with floating-point byte counts).
\<close>

record env =
  now :: int
  admin_ids :: "int list"
  panel_response :: "api_call list \<Rightarrow> api_call \<Rightarrow> int option"
  get_user :: "api \<Rightarrow> ustr \<Rightarrow> ustr \<Rightarrow> ustr \<Rightarrow> get_user_result"
  collect_links :: "link_row list \<Rightarrow> ustr \<Rightarrow> bool \<Rightarrow> ustr list \<times> ustr list"
  limit_reached_body :: "int \<Rightarrow> ustr \<Rightarrow> int \<Rightarrow> int \<Rightarrow> ustr"

text \<open>The database together with the trace of what was sent to the panels.\<close>

record state =
  local_users :: "local_user list"
  agents :: "agent list"
  panels :: "panel list"
  local_user_panel_links :: "panel_link list"
  agent_panels :: "agent_panel list"
  app_users :: "app_user list"
  attempts :: "attempt list"
  calls :: "api_call list"

definition get_api :: "ustr \<Rightarrow> api" where
  "get_api panel_type =
     (if panel_type = ustr ''marzneshin'' then Marzneshin
      else if panel_type = ustr ''marzban'' then Marzban
      else if panel_type = ustr ''sanaei'' then Sanaei
      else Marzneshin)"

text \<open>An adapter call: it is recorded, and succeeds when the panel answers 200.\<close>

definition adapter_call :: "env \<Rightarrow> api_call \<Rightarrow> state \<Rightarrow> bool \<times> state" where
  "adapter_call e c s =
     (panel_response e (calls s) c = Some 200, s\<lparr>calls := calls s @ [c]\<rparr>)"

section \<open>scripts/usage\_sync.py\<close>

definition join_panels :: "state \<Rightarrow> panel_link list \<Rightarrow> link_row list" where
  "join_panels s ls =
     List.map_filter
       (\<lambda>l. map_option
          (\<lambda>p. \<lparr>r_link_id = l_id l, r_owner_id = l_owner_id l,
                r_local_username = l_local_username l, r_panel_id = l_panel_id l,
                r_remote_username = l_remote_username l,
                r_last_used_traffic = l_last_used_traffic l,
                r_panel_url = p_panel_url p, r_access_token = p_access_token p,
                r_panel_type = p_panel_type p\<rparr>)
          (find (\<lambda>p. p_id p = l_panel_id l) (panels s)))
       ls"

definition fetch_all_links :: "state \<Rightarrow> link_row list" where
  "fetch_all_links s = join_panels s (sort_key l_id (local_user_panel_links s))"

text \<open>The result is \<open>None\<close> where the source returns \<open>(None, err)\<close>.\<close>

fun sum_used_traffic :: "env \<Rightarrow> api \<Rightarrow> ustr \<Rightarrow> ustr \<Rightarrow> ustr list \<Rightarrow> int \<Rightarrow> int option" where
  "sum_used_traffic e a panel_url bearer [] tot = Some tot"
| "sum_used_traffic e a panel_url bearer (rn # rns) tot =
     (case get_user e a panel_url bearer rn of
        GetErr \<Rightarrow> None
      | GetRaise \<Rightarrow> None
      | GetObj t \<Rightarrow>
          sum_used_traffic e a panel_url bearer rns
            (tot + (case t of None \<Rightarrow> 0 | Some n \<Rightarrow> n)))"

definition fetch_used_traffic :: "env \<Rightarrow> ustr \<Rightarrow> ustr \<Rightarrow> ustr \<Rightarrow> ustr \<Rightarrow> int option" where
  "fetch_used_traffic e panel_type panel_url bearer remote_username =
     (let a = get_api panel_type in
      if panel_type = ustr ''sanaei'' \<and> comma \<in> set remote_username then
        sum_used_traffic e a panel_url bearer
          (filter (\<lambda>r. r \<noteq> []) (map strip (split_on comma remote_username))) 0
      else
        (case get_user e a panel_url bearer remote_username of
           GetErr \<Rightarrow> None
         | GetRaise \<Rightarrow> None
         | GetObj t \<Rightarrow> Some (case t of None \<Rightarrow> 0 | Some n \<Rightarrow> n)))"

definition BIGINT_MAX :: int where
  "BIGINT_MAX = 9223372036854775807"

datatype error = OutOfRange

text \<open>
  \<open>add_usage\<close> runs two UPDATE statements in one transaction (\<open>CurCtx\<close> commits only when its
  body raised nothing). The columns \<open>used_bytes\<close> and \<open>total_used_bytes\<close> are declared
  \<open>BIGINT NOT NULL\<close>, a signed 64-bit integer, in \<open>ensure_schema\<close>; the cap of the statement,
  \<open>LEAST(x + delta, 18446744073709551615)\<close>, is above what they hold. A row whose new value
  would exceed \<open>BIGINT_MAX\<close> makes its UPDATE raise: the result is \<open>Inl OutOfRange\<close> and, the
  transaction not being committed, no row of either table has changed.
\<close>

definition add_usage :: "int \<Rightarrow> ustr \<Rightarrow> int \<Rightarrow> state \<Rightarrow> error + state" where
  "add_usage owner_id local_username delta s =
     (if delta \<le> 0 then Inr s
      else if list_ex (\<lambda>u. lu_owner_id u = owner_id \<and> lu_username u = local_username \<and>
                            BIGINT_MAX < min (lu_used_bytes u + delta) 18446744073709551615)
                      (local_users s) \<or>
              list_ex (\<lambda>a. ag_telegram_user_id a = owner_id \<and>
                            BIGINT_MAX < min (ag_total_used_bytes a + delta) 18446744073709551615)
                      (agents s)
      then Inl OutOfRange
      else Inr (s\<lparr>local_users :=
               map (\<lambda>u. if lu_owner_id u = owner_id \<and> lu_username u = local_username
                         then u\<lparr>lu_used_bytes := min (lu_used_bytes u + delta) 18446744073709551615\<rparr>
                         else u)
                   (local_users s),
             agents :=
               map (\<lambda>a. if ag_telegram_user_id a = owner_id
                         then a\<lparr>ag_total_used_bytes :=
                                  min (ag_total_used_bytes a + delta) 18446744073709551615\<rparr>
                         else a)
                   (agents s)\<rparr>))"

definition update_last :: "int \<Rightarrow> int \<Rightarrow> state \<Rightarrow> state" where
  "update_last link_id new_used s =
     s\<lparr>local_user_panel_links :=
         map (\<lambda>l. if l_id l = link_id then l\<lparr>l_last_used_traffic := new_used\<rparr> else l)
             (local_user_panel_links s)\<rparr>"

definition get_local_user :: "state \<Rightarrow> int \<Rightarrow> ustr \<Rightarrow> local_user option" where
  "get_local_user s owner_id local_username =
     find (\<lambda>u. lu_owner_id u = owner_id \<and> lu_username u = local_username) (local_users s)"

definition list_links_of_local_user :: "state \<Rightarrow> int \<Rightarrow> ustr \<Rightarrow> link_row list" where
  "list_links_of_local_user s owner_id local_username =
     join_panels s
       (filter (\<lambda>l. l_owner_id l = owner_id \<and> l_local_username l = local_username)
               (local_user_panel_links s))"

definition mark_user_disabled :: "env \<Rightarrow> int \<Rightarrow> ustr \<Rightarrow> state \<Rightarrow> state" where
  "mark_user_disabled e owner_id local_username s =
     s\<lparr>local_users :=
         map (\<lambda>u. if lu_owner_id u = owner_id \<and> lu_username u = local_username
                   then u\<lparr>lu_disabled_pushed := 1, lu_disabled_pushed_at := Some (now e)\<rparr>
                   else u)
             (local_users s)\<rparr>"

text \<open>
  The loop of \<open>disable_remote\<close> and \<open>enable_remote\<close> over the remote names: every name
  is called, whatever the earlier calls answered.
\<close>

fun remote_loop :: "env \<Rightarrow> call_kind \<Rightarrow> api \<Rightarrow> ustr \<Rightarrow> ustr \<Rightarrow> ustr list \<Rightarrow> bool \<Rightarrow> state \<Rightarrow> bool \<times> state" where
  "remote_loop e k a panel_url token [] all_ok s = (all_ok, s)"
| "remote_loop e k a panel_url token (rn # rns) all_ok s =
     (case adapter_call e (ApiCall k a panel_url token rn) s of
        (ok, s') \<Rightarrow> remote_loop e k a panel_url token rns (if ok then all_ok else False) s')"

definition remote_op :: "env \<Rightarrow> call_kind \<Rightarrow> ustr \<Rightarrow> ustr \<Rightarrow> ustr \<Rightarrow> ustr \<Rightarrow> state \<Rightarrow> int option \<times> state" where
  "remote_op e k panel_type panel_url token remote_username s =
     (let a = get_api panel_type;
          remotes = (if panel_type = ustr ''sanaei'' then split_on comma remote_username
                     else [remote_username])
      in case remote_loop e k a panel_url token remotes True
                (s\<lparr>attempts := attempts s @ [Attempt k panel_type panel_url token remote_username]\<rparr>) of
           (all_ok, s') \<Rightarrow> (if all_ok then Some 200 else None, s'))"

definition disable_remote :: "env \<Rightarrow> ustr \<Rightarrow> ustr \<Rightarrow> ustr \<Rightarrow> ustr \<Rightarrow> state \<Rightarrow> int option \<times> state" where
  "disable_remote e panel_type panel_url token remote_username s =
     remote_op e Disable panel_type panel_url token remote_username s"

definition enable_remote :: "env \<Rightarrow> ustr \<Rightarrow> ustr \<Rightarrow> ustr \<Rightarrow> ustr \<Rightarrow> state \<Rightarrow> int option \<times> state" where
  "enable_remote e panel_type panel_url token remote_username s =
     remote_op e Enable panel_type panel_url token remote_username s"

definition mark_user_enabled :: "int \<Rightarrow> ustr \<Rightarrow> state \<Rightarrow> state" where
  "mark_user_enabled owner_id local_username s =
     s\<lparr>local_users :=
         map (\<lambda>u. if lu_owner_id u = owner_id \<and> lu_username u = local_username
                   then u\<lparr>lu_disabled_pushed := 0, lu_disabled_pushed_at := None\<rparr>
                   else u)
             (local_users s)\<rparr>"

text \<open>\<open>for l in links: disable_remote(...)\<close>; the returned code is only logged.\<close>

definition disable_links :: "env \<Rightarrow> link_row list \<Rightarrow> state \<Rightarrow> state" where
  "disable_links e links s =
     foldl (\<lambda>s l. snd (disable_remote e (r_panel_type l) (r_panel_url l) (r_access_token l)
                          (r_remote_username l) s)) s links"

definition enable_links :: "env \<Rightarrow> link_row list \<Rightarrow> state \<Rightarrow> state" where
  "enable_links e links s =
     foldl (\<lambda>s l. snd (enable_remote e (r_panel_type l) (r_panel_url l) (r_access_token l)
                         (r_remote_username l) s)) s links"

definition try_disable_if_user_exceeded :: "env \<Rightarrow> int \<Rightarrow> ustr \<Rightarrow> state \<Rightarrow> state" where
  "try_disable_if_user_exceeded e owner_id local_username s =
     (case get_local_user s owner_id local_username of
        None \<Rightarrow> s
      | Some lu \<Rightarrow>
          (let limit = lu_plan_limit_bytes lu;
               used = lu_used_bytes lu;
               pushed = lu_disabled_pushed lu
           in if limit > 0 \<and> used \<ge> limit \<and> pushed = 0 then
                mark_user_disabled e owner_id local_username
                  (disable_links e (list_links_of_local_user s owner_id local_username) s)
              else s))"

definition try_enable_if_user_ok :: "env \<Rightarrow> int \<Rightarrow> ustr \<Rightarrow> state \<Rightarrow> state" where
  "try_enable_if_user_ok e owner_id local_username s =
     (case get_local_user s owner_id local_username of
        None \<Rightarrow> s
      | Some lu \<Rightarrow>
          (let limit = lu_plan_limit_bytes lu;
               used = lu_used_bytes lu;
               pushed = lu_disabled_pushed lu
           in if pushed \<noteq> 0 \<and> (limit = 0 \<or> used < limit) then
                mark_user_enabled owner_id local_username
                  (enable_links e (list_links_of_local_user s owner_id local_username) s)
              else s))"

subsection \<open>Agent quota and expiry\<close>

definition get_agent :: "state \<Rightarrow> int \<Rightarrow> agent option" where
  "get_agent s owner_id = find (\<lambda>a. ag_telegram_user_id a = owner_id) (agents s)"

definition total_used_by_owner :: "state \<Rightarrow> int \<Rightarrow> int" where
  "total_used_by_owner s owner_id =
     (case find (\<lambda>a. ag_telegram_user_id a = owner_id) (agents s) of
        None \<Rightarrow> 0
      | Some row \<Rightarrow> ag_total_used_bytes row)"

definition list_all_local_usernames :: "state \<Rightarrow> int \<Rightarrow> ustr list" where
  "list_all_local_usernames s owner_id =
     map lu_username (filter (\<lambda>u. lu_owner_id u = owner_id) (local_users s))"

definition list_agent_assigned_panels :: "state \<Rightarrow> int \<Rightarrow> panel list" where
  "list_agent_assigned_panels s owner_id =
     List.map_filter (\<lambda>ap. find (\<lambda>p. p_id p = ap_panel_id ap) (panels s))
       (filter (\<lambda>ap. ap_agent_tg_id ap = owner_id) (agent_panels s))"

definition mark_agent_disabled :: "env \<Rightarrow> int \<Rightarrow> state \<Rightarrow> state" where
  "mark_agent_disabled e owner_id s =
     s\<lparr>agents :=
         map (\<lambda>a. if ag_telegram_user_id a = owner_id
                   then a\<lparr>ag_disabled_pushed := 1, ag_disabled_pushed_at := Some (now e)\<rparr>
                   else a)
             (agents s)\<rparr>"

definition mark_all_users_disabled :: "env \<Rightarrow> int \<Rightarrow> state \<Rightarrow> state" where
  "mark_all_users_disabled e owner_id s =
     s\<lparr>local_users :=
         map (\<lambda>u. if lu_owner_id u = owner_id
                   then u\<lparr>lu_disabled_pushed := 1, lu_disabled_pushed_at := Some (now e)\<rparr>
                   else u)
             (local_users s)\<rparr>"

definition disable_user_on_assigned_panels :: "env \<Rightarrow> int \<Rightarrow> ustr \<Rightarrow> state \<Rightarrow> state" where
  "disable_user_on_assigned_panels e owner_id username s =
     foldl (\<lambda>s p. snd (disable_remote e (p_panel_type p) (p_panel_url p) (p_access_token p)
                          username s))
           s (list_agent_assigned_panels s owner_id)"

definition enable_user_on_assigned_panels :: "env \<Rightarrow> int \<Rightarrow> ustr \<Rightarrow> state \<Rightarrow> state" where
  "enable_user_on_assigned_panels e owner_id username s =
     foldl (\<lambda>s p. snd (enable_remote e (p_panel_type p) (p_panel_url p) (p_access_token p)
                         username s))
           s (list_agent_assigned_panels s owner_id)"

definition mark_agent_enabled :: "int \<Rightarrow> state \<Rightarrow> state" where
  "mark_agent_enabled owner_id s =
     s\<lparr>agents :=
         map (\<lambda>a. if ag_telegram_user_id a = owner_id
                   then a\<lparr>ag_disabled_pushed := 0, ag_disabled_pushed_at := None\<rparr>
                   else a)
             (agents s)\<rparr>"

definition mark_all_users_enabled :: "int \<Rightarrow> state \<Rightarrow> state" where
  "mark_all_users_enabled owner_id s =
     s\<lparr>local_users :=
         map (\<lambda>u. if lu_owner_id u = owner_id
                   then u\<lparr>lu_disabled_pushed := 0, lu_disabled_pushed_at := None\<rparr>
                   else u)
             (local_users s)\<rparr>"

text \<open>\<open>expired\<close> and \<open>over_limit\<close> as both agent functions compute them.\<close>

definition agent_expired :: "env \<Rightarrow> agent \<Rightarrow> bool" where
  "agent_expired e ag =
     (case ag_expire_at ag of None \<Rightarrow> False | Some expire_at \<Rightarrow> expire_at \<le> now e)"

definition agent_over_limit :: "state \<Rightarrow> int \<Rightarrow> agent \<Rightarrow> bool" where
  "agent_over_limit s owner_id ag =
     (let limit_b = ag_plan_limit_bytes ag
      in if limit_b > 0 then total_used_by_owner s owner_id \<ge> limit_b else False)"

definition try_disable_agent_if_exceeded :: "env \<Rightarrow> int \<Rightarrow> state \<Rightarrow> state" where
  "try_disable_agent_if_exceeded e owner_id s =
     (case get_agent s owner_id of
        None \<Rightarrow> s
      | Some ag \<Rightarrow>
          if ag_active ag = 0 then s
          else
            (let already_pushed = ag_disabled_pushed ag;
                 expired = agent_expired e ag;
                 over_limit = agent_over_limit s owner_id ag
             in if (expired \<or> over_limit) \<and> already_pushed = 0 then
                  mark_agent_disabled e owner_id
                    (mark_all_users_disabled e owner_id
                       (foldl (\<lambda>s uname.
                                 disable_user_on_assigned_panels e owner_id uname
                                   (disable_links e (list_links_of_local_user s owner_id uname) s))
                              s (list_all_local_usernames s owner_id)))
                else s))"

definition try_enable_agent_if_ok :: "env \<Rightarrow> int \<Rightarrow> state \<Rightarrow> state" where
  "try_enable_agent_if_ok e owner_id s =
     (case get_agent s owner_id of
        None \<Rightarrow> s
      | Some ag \<Rightarrow>
          if ag_active ag = 0 then s
          else if ag_disabled_pushed ag = 0 then s
          else
            (let expired = agent_expired e ag;
                 over_limit = agent_over_limit s owner_id ag
             in if \<not> expired \<and> \<not> over_limit then
                  mark_agent_enabled owner_id
                    (mark_all_users_enabled owner_id
                       (foldl (\<lambda>s uname.
                                 enable_user_on_assigned_panels e owner_id uname
                                   (enable_links e (list_links_of_local_user s owner_id uname) s))
                              s (list_all_local_usernames s owner_id)))
                else s))"

subsection \<open>The polling loop\<close>

text \<open>
  The body of \<open>for row in links\<close> in \<open>loop\<close>: the new state and \<open>seen_owners\<close>. A failed
  fetch and a lowered counter both \<open>continue\<close>, before the owner is added to \<open>seen_owners\<close>.
  \<open>add_usage\<close> is the first write of the body: when it raises, the body is left with the
  state it was entered with.
\<close>

definition process_row :: "env \<Rightarrow> link_row \<Rightarrow> state \<times> int list \<Rightarrow> error + state \<times> int list" where
  "process_row e row acc =
     (case acc of (s, seen_owners) \<Rightarrow>
        (case fetch_used_traffic e (r_panel_type row) (r_panel_url row) (r_access_token row)
                (r_remote_username row) of
           None \<Rightarrow> Inr (s, seen_owners)
         | Some used \<Rightarrow>
             (let last = r_last_used_traffic row in
              if used < last then Inr (update_last (r_link_id row) used s, seen_owners)
              else
                (let delta = used - last in
                 case (if delta > 0
                       then (case add_usage (r_owner_id row) (r_local_username row) delta s of
                               Inl err \<Rightarrow> Inl err
                             | Inr s0 \<Rightarrow> Inr (update_last (r_link_id row) used s0))
                       else Inr s) of
                   Inl err \<Rightarrow> Inl err
                 | Inr s1 \<Rightarrow>
                     (let s2 = try_disable_if_user_exceeded e (r_owner_id row) (r_local_username row) s1;
                          s3 = try_enable_if_user_ok e (r_owner_id row) (r_local_username row) s2
                      in Inr (s3, List.insert (r_owner_id row) seen_owners))))))"

text \<open>
  The \<open>for\<close> loop over the links read at the start of the pass. An exception leaves the
  loop at once: the rows after the one that raised are not visited, and \<open>Inl\<close> carries the
  state reached so far.
\<close>

fun process_links :: "env \<Rightarrow> link_row list \<Rightarrow> state \<times> int list \<Rightarrow> error \<times> state + state \<times> int list" where
  "process_links e [] acc = Inr acc"
| "process_links e (row # rows) acc =
     (case process_row e row acc of
        Inl err \<Rightarrow> Inl (err, fst acc)
      | Inr acc' \<Rightarrow> process_links e rows acc')"

text \<open>
  One pass of \<open>while True\<close>: the links are read once, then walked in order; afterwards
  every owner seen is checked at agent level. \<open>seen_owners\<close> is a Python set: the order
  in which it is iterated is taken here as the order of first insertion. The
  \<open>except Exception\<close> of the pass only logs: after an exception the agent checks of this
  pass are skipped and the state is the one reached when it was raised.
\<close>

definition loop_cycle :: "env \<Rightarrow> state \<Rightarrow> state" where
  "loop_cycle e s =
     (case process_links e (fetch_all_links s) (s, []) of
        Inl (err, s1) \<Rightarrow> s1
      | Inr (s1, seen_owners) \<Rightarrow>
          foldl (\<lambda>s owner_id. try_enable_agent_if_ok e owner_id
                                 (try_disable_agent_if_exceeded e owner_id s))
                s1 (rev seen_owners))"

section \<open>app.py\<close>

definition expand_owner_ids :: "env \<Rightarrow> int \<Rightarrow> int list" where
  "expand_owner_ids e owner_id =
     (if owner_id \<in> set (admin_ids e) then admin_ids e else [owner_id])"

definition get_owner_id :: "state \<Rightarrow> ustr \<Rightarrow> ustr \<Rightarrow> int option" where
  "get_owner_id s app_username app_key =
     map_option au_telegram_user_id
       (find (\<lambda>a. au_username a = app_username \<and> au_app_key a = app_key) (app_users s))"

definition get_local_user_app :: "env \<Rightarrow> state \<Rightarrow> int \<Rightarrow> ustr \<Rightarrow> local_user option" where
  "get_local_user_app e s owner_id local_username =
     find (\<lambda>u. lu_owner_id u \<in> set (expand_owner_ids e owner_id)
               \<and> lu_username u = local_username)
          (local_users s)"

definition list_mapped_links :: "env \<Rightarrow> state \<Rightarrow> int \<Rightarrow> ustr \<Rightarrow> link_row list" where
  "list_mapped_links e s owner_id local_username =
     join_panels s
       (filter (\<lambda>l. l_owner_id l \<in> set (expand_owner_ids e owner_id)
                    \<and> l_local_username l = local_username)
               (local_user_panel_links s))"

definition list_all_panels :: "env \<Rightarrow> state \<Rightarrow> int \<Rightarrow> panel list" where
  "list_all_panels e s owner_id =
     filter (\<lambda>p. p_telegram_user_id p \<in> set (expand_owner_ids e owner_id)) (panels s)"

text \<open>
  The mapping built for a panel when a user has no link row: the remote name is the local
  one. Only the five columns of such a mapping are ever read; the others are filled in.
\<close>

definition panel_mapping :: "int \<Rightarrow> ustr \<Rightarrow> panel \<Rightarrow> link_row" where
  "panel_mapping owner_id local_username p =
     \<lparr>r_link_id = 0, r_owner_id = owner_id, r_local_username = local_username,
      r_panel_id = p_id p, r_remote_username = local_username, r_last_used_traffic = 0,
      r_panel_url = p_panel_url p, r_access_token = p_access_token p,
      r_panel_type = p_panel_type p\<rparr>"

definition mark_user_disabled_app :: "env \<Rightarrow> int \<Rightarrow> ustr \<Rightarrow> state \<Rightarrow> state" where
  "mark_user_disabled_app e owner_id local_username s =
     s\<lparr>local_users :=
         map (\<lambda>u. if lu_owner_id u \<in> set (expand_owner_ids e owner_id)
                      \<and> lu_username u = local_username
                   then u\<lparr>lu_disabled_pushed := 1, lu_disabled_pushed_at := Some (now e)\<rparr>
                   else u)
             (local_users s)\<rparr>"

text \<open>
  \<open>disable_remote\<close> of app.py. For a sanaei panel every non-empty trimmed name is
  disabled through the adapter. Otherwise the Marzneshin endpoint is tried first and,
  unless it answers 200, the Marzban one; a request that raises ends the attempt with no
  code.
\<close>

definition disable_remote_app :: "env \<Rightarrow> ustr \<Rightarrow> ustr \<Rightarrow> ustr \<Rightarrow> ustr \<Rightarrow> state \<Rightarrow> int option \<times> state" where
  "disable_remote_app e panel_type panel_url token remote_username s =
     (let s0 = s\<lparr>attempts := attempts s @
                    [Attempt Disable panel_type panel_url token remote_username]\<rparr>
      in if panel_type = ustr ''sanaei'' then
           (case remote_loop e Disable Sanaei panel_url token
                   (filter (\<lambda>r. r \<noteq> []) (map strip (split_on comma remote_username)))
                   True s0 of
              (all_ok, s') \<Rightarrow> (if all_ok then Some 200 else None, s'))
         else
           (let c1 = ApiCall Disable Marzneshin panel_url token remote_username;
                s1 = s0\<lparr>calls := calls s0 @ [c1]\<rparr>
            in case panel_response e (calls s0) c1 of
                 None \<Rightarrow> (None, s1)
               | Some code1 \<Rightarrow>
                   if code1 = 200 then (Some code1, s1)
                   else
                     (let c2 = ApiCall Disable Marzban panel_url token remote_username;
                          s2 = s1\<lparr>calls := calls s1 @ [c2]\<rparr>
                      in case panel_response e (calls s1) c2 of
                           None \<Rightarrow> (None, s2)
                         | Some code2 \<Rightarrow> (Some code2, s2))))"

definition disable_links_app :: "env \<Rightarrow> link_row list \<Rightarrow> state \<Rightarrow> state" where
  "disable_links_app e links s =
     foldl (\<lambda>s l. snd (disable_remote_app e (r_panel_type l) (r_panel_url l)
                          (r_access_token l) (r_remote_username l) s)) s links"

text \<open>\<open>s.strip().strip('"').strip("'")\<close>\<close>

definition strip_quotes :: "ustr \<Rightarrow> ustr" where
  "strip_quotes s = strip_chars (\<lambda>c. c = 39) (strip_chars (\<lambda>c. c = 34) (strip s))"

text \<open>
  \<open>str.lower\<close> on the ASCII letters. No code point outside \<open>A-Z\<close> lowercases to a
  string that begins with a character of the four prefixes below, so
  \<open>ss.lower().startswith(ALLOWED_SCHEMES)\<close> is decided by this function.
\<close>

definition lower :: "ustr \<Rightarrow> ustr" where
  "lower s = map (\<lambda>c. if 65 \<le> c \<and> c \<le> 90 then c + 32 else c) s"

definition ALLOWED_SCHEMES :: "ustr list" where
  "ALLOWED_SCHEMES = [ustr ''vless://'', ustr ''vmess://'', ustr ''trojan://'', ustr ''ss://'']"

definition startswith :: "ustr \<Rightarrow> ustr list \<Rightarrow> bool" where
  "startswith s ps = list_ex (\<lambda>p. take (length p) s = p) ps"

fun filter_dedupe_loop :: "ustr list \<Rightarrow> ustr list \<Rightarrow> ustr set \<Rightarrow> ustr list" where
  "filter_dedupe_loop [] out seen = out"
| "filter_dedupe_loop (s # links) out seen =
     (let ss = strip_quotes s in
      if \<not> startswith (lower ss) ALLOWED_SCHEMES then filter_dedupe_loop links out seen
      else if ss \<notin> seen then filter_dedupe_loop links (out @ [ss]) (insert ss seen)
      else filter_dedupe_loop links out seen)"

definition filter_dedupe :: "ustr list \<Rightarrow> ustr list" where
  "filter_dedupe links = filter_dedupe_loop links [] {}"

subsection \<open>Agent level\<close>

definition get_agent_app :: "env \<Rightarrow> state \<Rightarrow> int \<Rightarrow> agent option" where
  "get_agent_app e s owner_id =
     find (\<lambda>a. ag_telegram_user_id a \<in> set (expand_owner_ids e owner_id) \<and> ag_active a = 1)
          (agents s)"

definition get_agent_total_used :: "env \<Rightarrow> state \<Rightarrow> int \<Rightarrow> int" where
  "get_agent_total_used e s owner_id =
     (case find (\<lambda>a. ag_telegram_user_id a \<in> set (expand_owner_ids e owner_id)
                     \<and> ag_active a = 1) (agents s) of
        None \<Rightarrow> 0
      | Some row \<Rightarrow> ag_total_used_bytes row)"

definition list_all_agent_links :: "env \<Rightarrow> state \<Rightarrow> int \<Rightarrow> link_row list" where
  "list_all_agent_links e s owner_id =
     join_panels s
       (filter (\<lambda>l. l_owner_id l \<in> set (expand_owner_ids e owner_id))
               (local_user_panel_links s))"

definition mark_agent_disabled_app :: "env \<Rightarrow> int \<Rightarrow> state \<Rightarrow> state" where
  "mark_agent_disabled_app e owner_id s =
     s\<lparr>agents :=
         map (\<lambda>a. if ag_telegram_user_id a \<in> set (expand_owner_ids e owner_id)
                   then a\<lparr>ag_disabled_pushed := 1, ag_disabled_pushed_at := Some (now e)\<rparr>
                   else a)
             (agents s)\<rparr>"

subsection \<open>The subscription route\<close>

text \<open>
  The diagnostic headers, as values: \<open>x_remaining_bytes = None\<close> is the text
  \<open>unlimited\<close>. The empty responses of the route carry none of them.
\<close>

record headers =
  x_plan_limit_bytes :: int
  x_used_bytes :: int
  x_remaining_bytes :: "int option"
  x_disabled_pushed :: int

text \<open>
  What the route answers: a 404, the rendered HTML page for a user (the template file is
  not part of the engine; the page is kept as the local user row it is rendered from), or
  a \<open>text/plain\<close> body.
\<close>

datatype response =
    NotFound
  | HtmlPage "local_user option"
  | TextPlain ustr "headers option"

text \<open>\<open>sep.join(xs)\<close>\<close>

fun join :: "ustr \<Rightarrow> ustr list \<Rightarrow> ustr" where
  "join sep [] = []"
| "join sep [x] = x"
| "join sep (x # y # xs) = x @ sep @ join sep (y # xs)"

text \<open>
  The agent gate of \<open>unified_links\<close>: whether the agent blocks the request, and the state
  after the disables it may push.
\<close>

definition agent_gate :: "env \<Rightarrow> int \<Rightarrow> state \<Rightarrow> bool \<times> state" where
  "agent_gate e owner_id s =
     (case get_agent_app e s owner_id of
        None \<Rightarrow> (False, s)
      | Some ag \<Rightarrow>
          (let limit_b = ag_plan_limit_bytes ag;
               pushed_a = ag_disabled_pushed ag;
               expired = (case ag_expire_at ag of None \<Rightarrow> False | Some exp \<Rightarrow> exp \<le> now e);
               exceeded = (if limit_b > 0 then get_agent_total_used e s owner_id \<ge> limit_b
                           else False)
           in if expired \<or> exceeded then
                (True,
                 if pushed_a = 0 then
                   mark_agent_disabled_app e owner_id
                     (disable_links_app e (list_all_agent_links e s owner_id) s)
                 else s)
              else (False, s)))"

definition unified_links :: "env \<Rightarrow> ustr \<Rightarrow> ustr \<Rightarrow> bool \<Rightarrow> state \<Rightarrow> response \<times> state" where
  "unified_links e local_username app_key want_html s =
     (case get_owner_id s local_username app_key of
        None \<Rightarrow> (NotFound, s)
      | Some owner_id \<Rightarrow>
          if owner_id = 0 then (NotFound, s)
          else
            (case get_local_user_app e s owner_id local_username of
               None \<Rightarrow> (if want_html then HtmlPage None else TextPlain [] None, s)
             | Some lu \<Rightarrow>
                 (case agent_gate e owner_id s of
                    (agent_blocked, s1) \<Rightarrow>
                      if agent_blocked \<and> \<not> want_html then (TextPlain [] None, s1)
                      else
                        (let limit = lu_plan_limit_bytes lu;
                             used = lu_used_bytes lu;
                             pushed = lu_disabled_pushed lu;
                             limit_reached = (limit > 0 \<and> used \<ge> limit);
                             s2 = (if limit_reached \<and> pushed = 0 then
                                     (let links0 = list_mapped_links e s1 owner_id local_username;
                                          links = (if links0 = [] then
                                                     map (panel_mapping owner_id local_username)
                                                         (list_all_panels e s1 owner_id)
                                                   else links0)
                                      in mark_user_disabled_app e owner_id local_username
                                           (disable_links_app e links s1))
                                   else s1)
                         in if limit_reached \<and> \<not> want_html then
                              (TextPlain (limit_reached_body e owner_id local_username limit used)
                                 (Some \<lparr>x_plan_limit_bytes = limit, x_used_bytes = used,
                                        x_remaining_bytes = Some 0, x_disabled_pushed = 1\<rparr>),
                               s2)
                            else
                              (let mapped = list_mapped_links e s2 owner_id local_username;
                                   collected =
                                     (if \<not> agent_blocked \<and> \<not> limit_reached then
                                        (if mapped \<noteq> [] then
                                           collect_links e mapped local_username want_html
                                         else
                                           collect_links e
                                             (map (panel_mapping owner_id local_username)
                                                  (list_all_panels e s2 owner_id))
                                             local_username want_html)
                                      else ([], []));
                                   all_links = fst collected;
                                   errors = snd collected;
                                   uniq = filter_dedupe all_links;
                                   body = (if uniq \<noteq> [] then join [10] uniq @ [10]
                                           else if errors \<noteq> [] then
                                             join [10] (map (\<lambda>er. [35, 32] @ er) errors) @ [10]
                                           else []);
                                   remaining = (if limit > 0 then limit - used else - 1)
                               in if want_html then (HtmlPage (Some lu), s2)
                                  else
                                    (TextPlain body
                                       (Some \<lparr>x_plan_limit_bytes = limit, x_used_bytes = used,
                                              x_remaining_bytes =
                                                (if remaining \<ge> 0 then Some (max 0 remaining)
                                                 else None),
                                              x_disabled_pushed = pushed\<rparr>),
                                     s2))))))"

section \<open>bot.py: giving usage back to the agent\<close>

definition list_user_links :: "env \<Rightarrow> state \<Rightarrow> int \<Rightarrow> ustr \<Rightarrow> link_row list" where
  "list_user_links e s owner_id local_username =
     join_panels s
       (filter (\<lambda>l. l_owner_id l \<in> set (expand_owner_ids e owner_id)
                    \<and> l_local_username l = local_username)
               (local_user_panel_links s))"

text \<open>The UPDATE that both \<open>reset_used\<close> and \<open>delete_local_user\<close> issue on \<open>agents\<close>.\<close>

definition credit_removal :: "int \<Rightarrow> int \<Rightarrow> state \<Rightarrow> state" where
  "credit_removal amount owner_real s =
     s\<lparr>agents :=
         map (\<lambda>a. if ag_telegram_user_id a = owner_real
                   then a\<lparr>ag_total_used_bytes := max (ag_total_used_bytes a - amount) 0\<rparr>
                   else a)
             (agents s)\<rparr>"

definition reset_used :: "env \<Rightarrow> int \<Rightarrow> ustr \<Rightarrow> state \<Rightarrow> state" where
  "reset_used e owner_id username s =
     (let ids = expand_owner_ids e owner_id;
          row = find (\<lambda>u. lu_owner_id u \<in> set ids \<and> lu_username u = username) (local_users s);
          prev_used = (case row of None \<Rightarrow> 0 | Some r \<Rightarrow> lu_used_bytes r);
          owner_real = map_option lu_owner_id row;
          s1 = s\<lparr>local_users :=
                   map (\<lambda>u. if lu_owner_id u \<in> set ids \<and> lu_username u = username
                             then u\<lparr>lu_used_bytes := 0\<rparr> else u)
                       (local_users s)\<rparr>;
          s2 = (case owner_real of
                  None \<Rightarrow> s1
                | Some ow \<Rightarrow> if prev_used > 0 then credit_removal prev_used ow s1 else s1)
      in foldl
           (\<lambda>s row.
              snd (remote_loop e ResetUsage (get_api (r_panel_type row)) (r_panel_url row)
                     (r_access_token row)
                     (if r_panel_type row = ustr ''sanaei''
                      then split_on comma (r_remote_username row)
                      else [r_remote_username row])
                     True s))
           s2 (list_user_links e s2 owner_id username))"

definition delete_local_user :: "env \<Rightarrow> int \<Rightarrow> ustr \<Rightarrow> state \<Rightarrow> state" where
  "delete_local_user e owner_id username s =
     (let ids = expand_owner_ids e owner_id;
          row = find (\<lambda>u. lu_owner_id u \<in> set ids \<and> lu_username u = username) (local_users s);
          used = (case row of None \<Rightarrow> 0 | Some r \<Rightarrow> lu_used_bytes r);
          owner_real = map_option lu_owner_id row;
          s1 = s\<lparr>local_user_panel_links :=
                   filter (\<lambda>l. \<not> (l_owner_id l \<in> set ids \<and> l_local_username l = username))
                          (local_user_panel_links s),
                 local_users :=
                   filter (\<lambda>u. \<not> (lu_owner_id u \<in> set ids \<and> lu_username u = username))
                          (local_users s),
                 app_users :=
                   filter (\<lambda>a. \<not> (au_telegram_user_id a \<in> set ids \<and> au_username a = username))
                          (app_users s)\<rparr>
      in case owner_real of
           None \<Rightarrow> s1
         | Some ow \<Rightarrow> if used > 0 then credit_removal used ow s1 else s1)"

section \<open>app.py: canonical configuration names\<close>

text \<open>
  What the interpreter's library decides and the source does not: how a byte string that
  is not all ASCII decodes as UTF-8 with \<open>errors='replace'\<close>, and which code points outside
  ASCII are decimal digits for \<open>\d\<close>.
\<close>

record pylib =
  decode_nonascii :: "nat list \<Rightarrow> ustr"
  decimal_nonascii :: "nat \<Rightarrow> bool"

subsection \<open>\<open>urllib.parse.unquote\<close>\<close>

definition hexval :: "nat \<Rightarrow> nat option" where
  "hexval c =
     (if 48 \<le> c \<and> c \<le> 57 then Some (c - 48)
      else if 65 \<le> c \<and> c \<le> 70 then Some (c - 55)
      else if 97 \<le> c \<and> c \<le> 102 then Some (c - 87)
      else None)"

text \<open>
  \<open>unquote_to_bytes\<close> on an ASCII run: the run is split at every \<open>%\<close>; a piece after the
  first that starts with two hex digits becomes that byte and the rest of the piece, any
  other piece keeps its \<open>%\<close>.
\<close>

fun unquote_item :: "ustr \<Rightarrow> nat list" where
  "unquote_item (a # b # rest) =
     (case hexval a of
        None \<Rightarrow> 37 # a # b # rest
      | Some x \<Rightarrow>
          (case hexval b of
             None \<Rightarrow> 37 # a # b # rest
           | Some y \<Rightarrow> (16 * x + y) # rest))"
| "unquote_item item = 37 # item"

definition unquote_to_bytes :: "ustr \<Rightarrow> nat list" where
  "unquote_to_bytes run =
     (case split_on 37 run of
        [] \<Rightarrow> []
      | first # items \<Rightarrow> first @ concat (map unquote_item items))"

definition utf8_decode :: "pylib \<Rightarrow> nat list \<Rightarrow> ustr" where
  "utf8_decode p bs = (if list_all (\<lambda>b. b < 128) bs then bs else decode_nonascii p bs)"

text \<open>
  The loop of \<open>unquote\<close> over \<open>re.split('([\x00-\x7f]+)', string)\<close>: every maximal ASCII run
  is percent-decoded and decoded as UTF-8, what lies between the runs is kept.
\<close>

function unquote_runs :: "pylib \<Rightarrow> ustr \<Rightarrow> ustr" where
  "unquote_runs p [] = []"
| "unquote_runs p (c # cs) =
     (if c < 128
      then utf8_decode p (unquote_to_bytes (c # takeWhile (\<lambda>c. c < 128) cs))
           @ unquote_runs p (dropWhile (\<lambda>c. c < 128) cs)
      else c # unquote_runs p cs)"
  by pat_completeness auto
termination
  by (relation "measure (\<lambda>(p, s). length s)")
     (auto intro: le_imp_less_Suc length_dropWhile_le)

definition unquote :: "pylib \<Rightarrow> ustr \<Rightarrow> ustr" where
  "unquote p s = (if 37 \<in> set s then unquote_runs p s else s)"

subsection \<open>The regular expressions of \<open>canonicalize_name\<close>\<close>

text \<open>
  Patterns: the empty pattern, one character of a class, a sequence, an alternative that
  prefers its left side, and a greedy repetition of a class with a least count.
  \<open>rmatch\<close> matches a sequence of patterns at the start of a string, backtracking as
  \<open>re\<close> does, and returns what follows the match.
\<close>

datatype re = Eps | Chr "nat \<Rightarrow> bool" | Seq re re | Alt re re | Rep nat "nat \<Rightarrow> bool"

primrec rsize :: "re \<Rightarrow> nat" where
  "rsize Eps = 1"
| "rsize (Chr p) = 1"
| "rsize (Seq a b) = rsize a + rsize b + 1"
| "rsize (Alt a b) = rsize a + rsize b + 1"
| "rsize (Rep n p) = 1"

fun first_some :: "'a option list \<Rightarrow> 'a option" where
  "first_some [] = None"
| "first_some (None # xs) = first_some xs"
| "first_some (Some x # xs) = Some x"

text \<open>The counts a greedy repetition tries, the largest first.\<close>

primrec down_to :: "nat \<Rightarrow> nat \<Rightarrow> nat list" where
  "down_to n 0 = (if n = 0 then [0] else [])"
| "down_to n (Suc m) = (if n \<le> Suc m then Suc m # down_to n m else [])"

function rmatch :: "re list \<Rightarrow> ustr \<Rightarrow> ustr option" where
  "rmatch [] s = Some s"
| "rmatch (Eps # k) s = rmatch k s"
| "rmatch (Chr p # k) [] = None"
| "rmatch (Chr p # k) (c # cs) = (if p c then rmatch k cs else None)"
| "rmatch (Seq a b # k) s = rmatch (a # b # k) s"
| "rmatch (Alt a b # k) s =
     (case rmatch (a # k) s of Some r \<Rightarrow> Some r | None \<Rightarrow> rmatch (b # k) s)"
| "rmatch (Rep n p # k) s =
     first_some (map (\<lambda>j. rmatch k (drop j s)) (down_to n (length (takeWhile p s))))"
  by pat_completeness auto
termination
  by (relation "measure (\<lambda>(k, s). sum_list (map rsize k))") auto

text \<open>
  \<open>re.sub(pattern, repl, string)\<close> for a replacement without group references: the
  leftmost match is replaced and the scan goes on after it; where nothing matches, the
  character is copied. An empty match is replaced too and the scan moves one character on.
\<close>

function re_sub :: "re \<Rightarrow> ustr \<Rightarrow> ustr \<Rightarrow> ustr" where
  "re_sub pat repl [] = (case rmatch [pat] [] of None \<Rightarrow> [] | Some rest \<Rightarrow> repl)"
| "re_sub pat repl (c # cs) =
     (case rmatch [pat] (c # cs) of
        None \<Rightarrow> c # re_sub pat repl cs
      | Some rest \<Rightarrow>
          if length rest \<le> length cs then repl @ re_sub pat repl rest
          else repl @ c # re_sub pat repl cs)"
  by pat_completeness auto
termination
  by (relation "measure (\<lambda>(pat, repl, s). length s)") auto

definition seq :: "re list \<Rightarrow> re" where
  "seq rs = foldr Seq rs Eps"

text \<open>\<open>\d\<close>, \<open>[KMGT]\<close> and \<open>B\<close> under \<open>re.I\<close>, \<open>.\<close>, and \<open>[a-zA-Z0-9_-]\<close>.\<close>

definition is_digit :: "pylib \<Rightarrow> nat \<Rightarrow> bool" where
  "is_digit p c \<longleftrightarrow> (48 \<le> c \<and> c \<le> 57) \<or> (128 \<le> c \<and> decimal_nonascii p c)"

definition is_unit :: "nat \<Rightarrow> bool" where
  "is_unit c \<longleftrightarrow> c = 75 \<or> c = 77 \<or> c = 71 \<or> c = 84 \<or> c = 107 \<or> c = 109 \<or> c = 103 \<or> c = 116
                  \<or> c = 8490"

definition is_b :: "nat \<Rightarrow> bool" where
  "is_b c \<longleftrightarrow> c = 66 \<or> c = 98"

definition is_dot_any :: "nat \<Rightarrow> bool" where
  "is_dot_any c \<longleftrightarrow> c \<noteq> 10"

definition is_token_char :: "nat \<Rightarrow> bool" where
  "is_token_char c \<longleftrightarrow>
     (97 \<le> c \<and> c \<le> 122) \<or> (65 \<le> c \<and> c \<le> 90) \<or> (48 \<le> c \<and> c \<le> 57) \<or> c = 95 \<or> c = 45"

text \<open>\<open>\d+(?:\.\d+)?\s*[KMGT]?B\<close>\<close>

definition AMOUNT :: "pylib \<Rightarrow> re list" where
  "AMOUNT p =
     [Rep 1 (is_digit p), Alt (Seq (Chr (\<lambda>c. c = 46)) (Rep 1 (is_digit p))) Eps,
      Rep 0 is_space, Alt (Chr is_unit) Eps, Chr is_b]"

text \<open>\<open>\s*\d+(?:\.\d+)?\s*[KMGT]?B/\d+(?:\.\d+)?\s*[KMGT]?B\<close> with \<open>re.I\<close>\<close>

definition TRAFFIC :: "pylib \<Rightarrow> re" where
  "TRAFFIC p = seq (Rep 0 is_space # AMOUNT p @ Chr (\<lambda>c. c = 47) # AMOUNT p)"

text \<open>\<open>\s*\<close>, the bust in silhouette (U+1F464), \<open>.*\<close>\<close>

definition OWNER_TAG :: re where
  "OWNER_TAG = seq [Rep 0 is_space, Chr (\<lambda>c. c = 128100), Rep 0 is_dot_any]"

text \<open>\<open>\s*\([a-zA-Z0-9_-]{3,}\)\<close>\<close>

definition PAREN_TOKEN :: re where
  "PAREN_TOKEN = seq [Rep 0 is_space, Chr (\<lambda>c. c = 40), Rep 3 is_token_char, Chr (\<lambda>c. c = 41)]"

text \<open>\<open>\s+\<close>\<close>

definition SPACES :: re where
  "SPACES = Rep 1 is_space"

text \<open>A string is never \<open>None\<close> here, and nothing in the body raises.\<close>

definition canonicalize_name :: "pylib \<Rightarrow> ustr \<Rightarrow> ustr" where
  "canonicalize_name p name =
     (let nm = strip (unquote p name);
          nm = re_sub (TRAFFIC p) [] nm;
          nm = re_sub OWNER_TAG [] nm;
          nm = re_sub PAREN_TOKEN [] nm;
          nm = re_sub SPACES [32] nm
      in take 255 (strip nm))"

section \<open>Vocabulary of the properties and sample data\<close>

text \<open>The database part of a state: the traces are blanked.\<close>

definition tables :: "state \<Rightarrow> state" where
  "tables s = s\<lparr>attempts := [], calls := []\<rparr>"

text \<open>The attempt that \<open>disable_remote\<close> or \<open>enable_remote\<close> records for a link row.\<close>

definition link_attempt :: "call_kind \<Rightarrow> link_row \<Rightarrow> attempt" where
  "link_attempt k l =
     Attempt k (r_panel_type l) (r_panel_url l) (r_access_token l) (r_remote_username l)"

text \<open>A sample world in which every panel call raises and every fetch fails.\<close>

definition ex_fail_env :: env where
  "ex_fail_env = \<lparr>now = 1000, admin_ids = [], panel_response = (\<lambda>h c. None),
                  get_user = (\<lambda>a u t r. GetErr),
                  collect_links = (\<lambda>m u h. ([], [])),
                  limit_reached_body = (\<lambda>ow u l n. ustr ''vless://limitreached'')\<rparr>"

definition ex_bob :: local_user where
  "ex_bob = \<lparr>lu_owner_id = 7, lu_username = ustr ''bob'', lu_plan_limit_bytes = 1000,
             lu_used_bytes = 1100, lu_expire_at = None, lu_disabled_pushed = 0,
             lu_disabled_pushed_at = None\<rparr>"

definition ex_state :: state where
  "ex_state = \<lparr>local_users = [ex_bob], agents = [],
     panels = [\<lparr>p_id = 1, p_telegram_user_id = 7, p_panel_url = ustr ''http://p'',
                p_access_token = ustr ''tok'', p_panel_type = ustr ''marzban''\<rparr>],
     local_user_panel_links = [\<lparr>l_id = 1, l_owner_id = 7, l_local_username = ustr ''bob'',
                l_panel_id = 1, l_remote_username = ustr ''bob1'', l_last_used_traffic = 800\<rparr>],
     agent_panels = [], app_users = [], attempts = [], calls = []\<rparr>"

text \<open>A user and an agent without a limit, both far into their usage.\<close>

definition ex_amy :: local_user where
  "ex_amy = \<lparr>lu_owner_id = 7, lu_username = ustr ''amy'', lu_plan_limit_bytes = 0,
             lu_used_bytes = 5000, lu_expire_at = None, lu_disabled_pushed = 0,
             lu_disabled_pushed_at = None\<rparr>"

definition ex_agent :: agent where
  "ex_agent = \<lparr>ag_telegram_user_id = 7, ag_plan_limit_bytes = 0, ag_expire_at = None,
               ag_active = 1, ag_total_used_bytes = 99999, ag_disabled_pushed = 0,
               ag_disabled_pushed_at = None\<rparr>"

definition ex_unlimited :: state where
  "ex_unlimited = ex_state\<lparr>local_users := [ex_amy], agents := [ex_agent],
     app_users := [\<lparr>au_telegram_user_id = 7, au_username = ustr ''amy'',
                    au_app_key = ustr ''key''\<rparr>]\<rparr>"

text \<open>An inactive agent that is both expired and over its limit.\<close>

definition ex_inactive :: state where
  "ex_inactive = ex_state\<lparr>agents := [\<lparr>ag_telegram_user_id = 7, ag_plan_limit_bytes = 10,
       ag_expire_at = Some 5, ag_active = 0, ag_total_used_bytes = 500,
       ag_disabled_pushed = 0, ag_disabled_pushed_at = None\<rparr>]\<rparr>"

text \<open>What a fetched account contributes to the sum of a multi-identity link.\<close>

definition traffic_of :: "get_user_result \<Rightarrow> int" where
  "traffic_of r = (case r of GetObj (Some n) \<Rightarrow> n | _ \<Rightarrow> 0)"

definition is_obj :: "get_user_result \<Rightarrow> bool" where
  "is_obj r = (case r of GetObj t \<Rightarrow> True | _ \<Rightarrow> False)"

text \<open>The sub-identities of a comma-joined remote name, as \<open>fetch_used_traffic\<close> walks them.\<close>

definition sub_identities :: "ustr \<Rightarrow> ustr list" where
  "sub_identities remote_username =
     filter (\<lambda>r. r \<noteq> []) (map strip (split_on comma remote_username))"

text \<open>The fetch of \<open>loop\<close> for a row.\<close>

definition fetch_row :: "env \<Rightarrow> link_row \<Rightarrow> int option" where
  "fetch_row e row =
     fetch_used_traffic e (r_panel_type row) (r_panel_url row) (r_access_token row)
       (r_remote_username row)"

text \<open>
  A sample world for fetches: the accounts \<open>a\<close>, \<open>b\<close> and \<open>bob1\<close> report 10, 20 and 1100
  bytes, every other account is unknown, and every panel call fails.
\<close>

definition ex_fetch_env :: env where
  "ex_fetch_env = ex_fail_env\<lparr>get_user :=
     (\<lambda>a url tok rn. if rn = ustr ''a'' then GetObj (Some 10)
                      else if rn = ustr ''b'' then GetObj (Some 20)
                      else if rn = ustr ''bob1'' then GetObj (Some 1100)
                      else GetErr)\<rparr>"

definition ex_row :: "ustr \<Rightarrow> ustr \<Rightarrow> link_row" where
  "ex_row panel_type remote_username =
     \<lparr>r_link_id = 1, r_owner_id = 7, r_local_username = ustr ''bob'', r_panel_id = 1,
      r_remote_username = remote_username, r_last_used_traffic = 800,
      r_panel_url = ustr ''http://p'', r_access_token = ustr ''tok'',
      r_panel_type = panel_type\<rparr>"

text \<open>The row that \<open>fetch_all_links\<close> returns for a link id.\<close>

definition link_row_of :: "state \<Rightarrow> int \<Rightarrow> link_row option" where
  "link_row_of s link_id = find (\<lambda>r. r_link_id r = link_id) (fetch_all_links s)"

text \<open>The per-cycle deltas of a run of reported values over a baseline.\<close>

fun deltas :: "int \<Rightarrow> int list \<Rightarrow> int list" where
  "deltas b [] = []"
| "deltas b (r # rs) = (r - b) # deltas r rs"

definition MAX_COUNTER :: int where
  "MAX_COUNTER = 18446744073709551615"

text \<open>What \<open>update_last\<close> does to a fetched row.\<close>

definition rebase_row :: "int \<Rightarrow> int \<Rightarrow> link_row \<Rightarrow> link_row" where
  "rebase_row link_id new_used r =
     (if r_link_id r = link_id then r\<lparr>r_last_used_traffic := new_used\<rparr> else r)"


text \<open>
  The entries of a list in the order in which they are first seen: the head, then the
  first-seen entries of the tail without the head.
\<close>

fun first_seen :: "'a list \<Rightarrow> 'a list" where
  "first_seen [] = []"
| "first_seen (x # xs) = x # filter (\<lambda>y. y \<noteq> x) (first_seen xs)"

text \<open>The scheme test of \<open>filter_dedupe\<close> on a trimmed entry.\<close>

definition allowed_scheme :: "ustr \<Rightarrow> bool" where
  "allowed_scheme ss = startswith (lower ss) ALLOWED_SCHEMES"

subsection \<open>Giving usage back to the agent\<close>

text \<open>The agents table after \<open>amount\<close> bytes are taken back from the agent of \<open>owner_real\<close>.\<close>

definition agents_credited :: "int \<Rightarrow> int \<Rightarrow> agent list \<Rightarrow> agent list" where
  "agents_credited amount owner_real ags =
     map (\<lambda>a. if ag_telegram_user_id a = owner_real
               then a\<lparr>ag_total_used_bytes := max (ag_total_used_bytes a - amount) 0\<rparr>
               else a) ags"

text \<open>No agent has a negative aggregate.\<close>

definition totals_nonneg :: "agent list \<Rightarrow> bool" where
  "totals_nonneg ags = list_all (\<lambda>a. 0 \<le> ag_total_used_bytes a) ags"

text \<open>The counters of the ledger, row by row.\<close>

definition user_counter :: "local_user \<Rightarrow> int \<times> ustr \<times> int" where
  "user_counter u = (lu_owner_id u, lu_username u, lu_used_bytes u)"

definition agent_counter :: "agent \<Rightarrow> int \<times> int" where
  "agent_counter a = (ag_telegram_user_id a, ag_total_used_bytes a)"

text \<open>
  Two states with the same ledger: panels and links are the same tables, and the local
  users and the agents agree on their keys and counters, row by row. Flags and traces
  may differ.
\<close>

definition same_ledger :: "state \<Rightarrow> state \<Rightarrow> bool" where
  "same_ledger s s' \<longleftrightarrow>
     panels s' = panels s
     \<and> local_user_panel_links s' = local_user_panel_links s
     \<and> map user_counter (local_users s') = map user_counter (local_users s)
     \<and> map agent_counter (agents s') = map agent_counter (agents s)"

text \<open>The counters as the sync script reads them.\<close>

definition used_bytes_of :: "state \<Rightarrow> int \<Rightarrow> ustr \<Rightarrow> int option" where
  "used_bytes_of s owner_id uname = map_option lu_used_bytes (get_local_user s owner_id uname)"

definition total_used_of :: "state \<Rightarrow> int \<Rightarrow> int option" where
  "total_used_of s owner_id = map_option ag_total_used_bytes (get_agent s owner_id)"

text \<open>
  What a pass settles for a row read at its start: \<open>row_delta\<close> is the usage it credits (the
  excess of the fetched value over the row's baseline, nothing after a failed fetch or a
  lowered counter) and \<open>row_baseline\<close> the baseline it leaves.
\<close>

definition row_delta :: "env \<Rightarrow> link_row \<Rightarrow> int" where
  "row_delta e r =
     (case fetch_row e r of
        None \<Rightarrow> 0
      | Some used \<Rightarrow> if r_last_used_traffic r < used then used - r_last_used_traffic r else 0)"

definition row_baseline :: "env \<Rightarrow> link_row \<Rightarrow> int" where
  "row_baseline e r = (case fetch_row e r of None \<Rightarrow> r_last_used_traffic r | Some used \<Rightarrow> used)"

text \<open>The credits of a list of rows to a local user and to an owner's agent.\<close>

definition user_credit :: "env \<Rightarrow> link_row list \<Rightarrow> int \<Rightarrow> ustr \<Rightarrow> int" where
  "user_credit e rows owner_id uname =
     sum_list (map (row_delta e)
       (filter (\<lambda>r. r_owner_id r = owner_id \<and> r_local_username r = uname) rows))"

definition owner_credit :: "env \<Rightarrow> link_row list \<Rightarrow> int \<Rightarrow> int" where
  "owner_credit e rows owner_id =
     sum_list (map (row_delta e) (filter (\<lambda>r. r_owner_id r = owner_id) rows))"

text \<open>
  The values of a pass fit the signed 64-bit columns: every counter with all the credits
  of the pass added, and every baseline the pass leaves.
\<close>

definition storable :: "int \<Rightarrow> bool" where
  "storable v \<longleftrightarrow> - BIGINT_MAX - 1 \<le> v \<and> v \<le> BIGINT_MAX"

definition in_range :: "env \<Rightarrow> link_row list \<Rightarrow> state \<Rightarrow> bool" where
  "in_range e rows s \<longleftrightarrow>
     list_all (\<lambda>u. lu_used_bytes u + user_credit e rows (lu_owner_id u) (lu_username u)
                     \<le> BIGINT_MAX) (local_users s)
     \<and> list_all (\<lambda>a. ag_total_used_bytes a + owner_credit e rows (ag_telegram_user_id a)
                     \<le> BIGINT_MAX) (agents s)
     \<and> list_all (\<lambda>r. storable (row_baseline e r)) rows"

text \<open>
  The ledger part of the loop body, without cap: the two UPDATE statements of \<open>add_usage\<close>,
  and what the body writes for a row.
\<close>

definition add_delta :: "int \<Rightarrow> ustr \<Rightarrow> int \<Rightarrow> state \<Rightarrow> state" where
  "add_delta owner_id uname d s =
     s\<lparr>local_users :=
         map (\<lambda>u. if lu_owner_id u = owner_id \<and> lu_username u = uname
                   then u\<lparr>lu_used_bytes := lu_used_bytes u + d\<rparr> else u) (local_users s),
       agents :=
         map (\<lambda>a. if ag_telegram_user_id a = owner_id
                   then a\<lparr>ag_total_used_bytes := ag_total_used_bytes a + d\<rparr> else a) (agents s)\<rparr>"

definition credit_row :: "env \<Rightarrow> link_row \<Rightarrow> state \<Rightarrow> state" where
  "credit_row e r s =
     (case fetch_row e r of
        None \<Rightarrow> s
      | Some used \<Rightarrow>
          if used = r_last_used_traffic r then s
          else update_last (r_link_id r) used
                 (add_delta (r_owner_id r) (r_local_username r) (row_delta e r) s))"

definition credit_rows :: "env \<Rightarrow> link_row list \<Rightarrow> state \<Rightarrow> state" where
  "credit_rows e rows s = foldl (\<lambda>s r. credit_row e r s) s rows"

text \<open>
  Consecutive passes of \<open>while True\<close>, each in its own world; whether every pass of a run
  stays in range; and the credits of a run to a local user and to an owner's agent, each
  pass counted on the rows it reads at its start.
\<close>

definition loop_cycles :: "env list \<Rightarrow> state \<Rightarrow> state" where
  "loop_cycles es s = foldl (\<lambda>s e. loop_cycle e s) s es"

fun in_range_run :: "env list \<Rightarrow> state \<Rightarrow> bool" where
  "in_range_run [] s = True"
| "in_range_run (e # es) s =
     (in_range e (fetch_all_links s) s \<and> in_range_run es (loop_cycle e s))"

fun run_credit :: "env list \<Rightarrow> state \<Rightarrow> int \<Rightarrow> ustr \<Rightarrow> int" where
  "run_credit [] s owner_id uname = 0"
| "run_credit (e # es) s owner_id uname =
     user_credit e (fetch_all_links s) owner_id uname
     + run_credit es (loop_cycle e s) owner_id uname"

fun run_owner_credit :: "env list \<Rightarrow> state \<Rightarrow> int \<Rightarrow> int" where
  "run_owner_credit [] s owner_id = 0"
| "run_owner_credit (e # es) s owner_id =
     owner_credit e (fetch_all_links s) owner_id
     + run_owner_credit es (loop_cycle e s) owner_id"

text \<open>What the write of the body for the row \<open>r\<close> does to a row of \<open>fetch_all_links\<close>.\<close>

definition settle_row :: "env \<Rightarrow> link_row \<Rightarrow> link_row \<Rightarrow> link_row" where
  "settle_row e r x =
     (case fetch_row e r of
        None \<Rightarrow> x
      | Some used \<Rightarrow>
          if used = r_last_used_traffic r then x else rebase_row (r_link_id r) used x)"

text \<open>
  A second sample state: bob has two links, the first on a sanaei panel under the
  comma-joined name \<open>a,c\<close>, the second the link of \<open>ex_state\<close>.
\<close>

definition ex_two :: state where
  "ex_two = ex_state\<lparr>
     panels := [\<lparr>p_id = 1, p_telegram_user_id = 7, p_panel_url = ustr ''http://p'',
                 p_access_token = ustr ''tok'', p_panel_type = ustr ''marzban''\<rparr>,
                \<lparr>p_id = 2, p_telegram_user_id = 7, p_panel_url = ustr ''http://p'',
                 p_access_token = ustr ''tok'', p_panel_type = ustr ''sanaei''\<rparr>],
     local_user_panel_links :=
       [\<lparr>l_id = 1, l_owner_id = 7, l_local_username = ustr ''bob'', l_panel_id = 2,
         l_remote_username = ustr ''a,c'', l_last_used_traffic = 50\<rparr>,
        \<lparr>l_id = 2, l_owner_id = 7, l_local_username = ustr ''bob'', l_panel_id = 1,
         l_remote_username = ustr ''bob1'', l_last_used_traffic = 800\<rparr>]\<rparr>"

definition ex_row1 :: link_row where
  "ex_row1 = \<lparr>r_link_id = 1, r_owner_id = 7, r_local_username = ustr ''bob'', r_panel_id = 2,
      r_remote_username = ustr ''a,c'', r_last_used_traffic = 50,
      r_panel_url = ustr ''http://p'', r_access_token = ustr ''tok'',
      r_panel_type = ustr ''sanaei''\<rparr>"

definition ex_row2 :: link_row where
  "ex_row2 = \<lparr>r_link_id = 2, r_owner_id = 7, r_local_username = ustr ''bob'', r_panel_id = 1,
      r_remote_username = ustr ''bob1'', r_last_used_traffic = 800,
      r_panel_url = ustr ''http://p'', r_access_token = ustr ''tok'',
      r_panel_type = ustr ''marzban''\<rparr>"

text \<open>
  A sample world in which the account \<open>a\<close> reports the largest signed 64-bit value, \<open>c\<close>
  reports nothing used and \<open>bob1\<close> reports 1100 bytes.
\<close>

definition ex_huge_env :: env where
  "ex_huge_env = ex_fail_env\<lparr>get_user :=
     (\<lambda>a url tok rn. if rn = ustr ''a'' then GetObj (Some 9223372036854775807)
                      else if rn = ustr ''c'' then GetObj None
                      else if rn = ustr ''bob1'' then GetObj (Some 1100)
                      else GetErr)\<rparr>"

text \<open>Whether an agent row is over its quota or expired, as the gates test it.\<close>

definition agent_exhausted :: "env \<Rightarrow> agent \<Rightarrow> bool" where
  "agent_exhausted e ag \<longleftrightarrow>
     (ag_plan_limit_bytes ag > 0 \<and> ag_total_used_bytes ag \<ge> ag_plan_limit_bytes ag)
     \<or> (case ag_expire_at ag of None \<Rightarrow> False | Some exp \<Rightarrow> exp \<le> now e)"

text \<open>
  An active agent over its quota that owns the sample link, with a user under no limit;
  the same with the agent inactive; and a world in which the fan-out returns one link.
\<close>

definition ex_over :: agent where
  "ex_over = \<lparr>ag_telegram_user_id = 7, ag_plan_limit_bytes = 10, ag_expire_at = None,
              ag_active = 1, ag_total_used_bytes = 500, ag_disabled_pushed = 0,
              ag_disabled_pushed_at = None\<rparr>"

definition ex_blocked :: state where
  "ex_blocked = ex_unlimited\<lparr>agents := [ex_over]\<rparr>"

definition ex_blocked_inactive :: state where
  "ex_blocked_inactive = ex_unlimited\<lparr>agents := [ex_over\<lparr>ag_active := 0\<rparr>]\<rparr>"

definition ex_links_env :: env where
  "ex_links_env = ex_fail_env\<lparr>collect_links := (\<lambda>m u h. ([ustr ''vless://x''], []))\<rparr>"

section \<open>Properties\<close>

lemma tables_fields [simp]:
  "local_users (tables s) = local_users s"
  "agents (tables s) = agents s"
  "panels (tables s) = panels s"
  "local_user_panel_links (tables s) = local_user_panel_links s"
  "agent_panels (tables s) = agent_panels s"
  "app_users (tables s) = app_users s"
  by (simp_all add: tables_def)

lemma tables_eqD:
  assumes "tables s' = tables s"
  shows "local_users s' = local_users s" "agents s' = agents s" "panels s' = panels s"
    "local_user_panel_links s' = local_user_panel_links s"
    "agent_panels s' = agent_panels s" "app_users s' = app_users s"
  using assms tables_fields by metis+

lemma state_eqI:
  "tables s' = tables s \<Longrightarrow> attempts s' = attempts s \<Longrightarrow> calls s' = calls s \<Longrightarrow> s' = s"
  by (cases s, cases s') (simp add: tables_def)

lemma remote_loop_frame:
  "tables (snd (remote_loop e k a url tok rns b s)) = tables s
   \<and> attempts (snd (remote_loop e k a url tok rns b s)) = attempts s
   \<and> prefix (calls s) (calls (snd (remote_loop e k a url tok rns b s)))"
proof (induction rns arbitrary: b s)
  case Nil
  then show ?case by simp
next
  case (Cons rn rns)
  let ?s1 = "s\<lparr>calls := calls s @ [ApiCall k a url tok rn]\<rparr>"
  let ?b1 = "if panel_response e (calls s) (ApiCall k a url tok rn) = Some 200 then b else False"
  have step: "remote_loop e k a url tok (rn # rns) b s = remote_loop e k a url tok rns ?b1 ?s1"
    by (simp add: adapter_call_def)
  have s1: "tables ?s1 = tables s" "attempts ?s1 = attempts s" "prefix (calls s) (calls ?s1)"
    by (simp_all add: tables_def)
  from Cons.IH[of ?b1 ?s1] have ih:
    "tables (snd (remote_loop e k a url tok rns ?b1 ?s1)) = tables ?s1"
    "attempts (snd (remote_loop e k a url tok rns ?b1 ?s1)) = attempts ?s1"
    "prefix (calls ?s1) (calls (snd (remote_loop e k a url tok rns ?b1 ?s1)))"
    by blast+
  from ih(3) s1(3) have "prefix (calls s) (calls (snd (remote_loop e k a url tok rns ?b1 ?s1)))"
    by (rule prefix_order.trans[rotated])
  with ih(1,2) s1(1,2) show ?case unfolding step by simp
qed

lemma remote_op_frame:
  "tables (snd (remote_op e k pt url tok ru s)) = tables s
   \<and> attempts (snd (remote_op e k pt url tok ru s)) = attempts s @ [Attempt k pt url tok ru]
   \<and> prefix (calls s) (calls (snd (remote_op e k pt url tok ru s)))"
proof -
  let ?s0 = "s\<lparr>attempts := attempts s @ [Attempt k pt url tok ru]\<rparr>"
  let ?rs = "if pt = ustr ''sanaei'' then split_on comma ru else [ru]"
  have eq: "snd (remote_op e k pt url tok ru s) = snd (remote_loop e k (get_api pt) url tok ?rs True ?s0)"
    by (simp add: remote_op_def Let_def split: prod.splits)
  have "tables ?s0 = tables s" "attempts ?s0 = attempts s @ [Attempt k pt url tok ru]" "calls ?s0 = calls s"
    by (simp_all add: tables_def)
  with remote_loop_frame[of e k "get_api pt" url tok ?rs True ?s0] show ?thesis
    unfolding eq by simp
qed

lemma disable_links_frame:
  "tables (disable_links e ls s) = tables s
   \<and> attempts (disable_links e ls s) = attempts s @ map (link_attempt Disable) ls
   \<and> prefix (calls s) (calls (disable_links e ls s))"
proof (induction ls arbitrary: s)
  case Nil
  then show ?case by (simp add: disable_links_def)
next
  case (Cons l ls)
  let ?s1 = "snd (disable_remote e (r_panel_type l) (r_panel_url l) (r_access_token l) (r_remote_username l) s)"
  have step: "disable_links e (l # ls) s = disable_links e ls ?s1"
    by (simp add: disable_links_def)
  have f1: "tables ?s1 = tables s" "attempts ?s1 = attempts s @ [link_attempt Disable l]"
    "prefix (calls s) (calls ?s1)"
    unfolding disable_remote_def link_attempt_def using remote_op_frame by blast+
  from Cons.IH[of ?s1] f1 show ?case
    unfolding step by (auto intro: prefix_order.trans)
qed

lemma find_map_same_key:
  assumes "\<And>x. P (f x) = P x"
  shows "find P (map f xs) = map_option f (find P xs)"
  by (induction xs) (simp_all add: assms)

lemma get_local_user_tables:
  assumes "tables s' = tables s"
  shows "get_local_user s' owner_id uname = get_local_user s owner_id uname"
  using tables_eqD(1)[OF assms] by (simp add: get_local_user_def)

lemma list_links_tables:
  assumes "tables s' = tables s"
  shows "list_links_of_local_user s' owner_id uname = list_links_of_local_user s owner_id uname"
  using tables_eqD(3,4)[OF assms] by (simp add: list_links_of_local_user_def join_panels_def)

lemma get_local_user_mark_user_disabled:
  "get_local_user (mark_user_disabled e owner_id uname s) owner_id uname =
     map_option (\<lambda>u. u\<lparr>lu_disabled_pushed := 1, lu_disabled_pushed_at := Some (now e)\<rparr>)
       (get_local_user s owner_id uname)"
proof -
  let ?P = "\<lambda>u. lu_owner_id u = owner_id \<and> lu_username u = uname"
  let ?f = "\<lambda>u. u\<lparr>lu_disabled_pushed := 1, lu_disabled_pushed_at := Some (now e)\<rparr>"
  have "find ?P (map (\<lambda>u. if ?P u then ?f u else u) xs) = map_option ?f (find ?P xs)" for xs
    by (induction xs) auto
  then show ?thesis
    by (simp add: get_local_user_def mark_user_disabled_def)
qed

lemma mark_user_disabled_logs:
  "attempts (mark_user_disabled e owner_id uname s) = attempts s"
  "calls (mark_user_disabled e owner_id uname s) = calls s"
  by (simp_all add: mark_user_disabled_def)

lemma try_disable_pushed_noop:
  assumes "get_local_user s owner_id uname = Some lu" "lu_disabled_pushed lu \<noteq> 0"
  shows "try_disable_if_user_exceeded e owner_id uname s = s"
  using assms by (simp add: try_disable_if_user_exceeded_def)

subsection \<open>User-level disable fires once\<close>

text \<open>
  C1. Re-evaluating the over-quota condition for a local user whose \<open>disabled_pushed\<close>
  flag is already set changes nothing: no \<open>disable_remote\<close> attempt, no adapter call.
  On the transition itself (limit positive, usage at or over the limit, flag 0) there is
  one attempt per linked panel, then the flag is 1 whatever the panels answered (the
  environment \<open>e\<close> is arbitrary), and evaluating again, under any environment, leaves
  the state as it is.
\<close>

theorem user_disable_once:
  assumes "get_local_user s owner_id uname = Some lu"
  shows "(lu_disabled_pushed lu \<noteq> 0 \<longrightarrow>
            try_disable_if_user_exceeded e owner_id uname s = s)
       \<and> (lu_plan_limit_bytes lu > 0 \<and> lu_used_bytes lu \<ge> lu_plan_limit_bytes lu
            \<and> lu_disabled_pushed lu = 0 \<longrightarrow>
            attempts (try_disable_if_user_exceeded e owner_id uname s) =
              attempts s @ map (link_attempt Disable) (list_links_of_local_user s owner_id uname)
          \<and> map_option lu_disabled_pushed
               (get_local_user (try_disable_if_user_exceeded e owner_id uname s) owner_id uname)
              = Some 1
          \<and> (\<forall>e'. try_disable_if_user_exceeded e' owner_id uname
                      (try_disable_if_user_exceeded e owner_id uname s)
                    = try_disable_if_user_exceeded e owner_id uname s))"
proof (intro conjI impI)
  assume "lu_disabled_pushed lu \<noteq> 0"
  with assms show "try_disable_if_user_exceeded e owner_id uname s = s"
    by (rule try_disable_pushed_noop)
next
  assume over: "lu_plan_limit_bytes lu > 0 \<and> lu_used_bytes lu \<ge> lu_plan_limit_bytes lu
            \<and> lu_disabled_pushed lu = 0"
  let ?ls = "list_links_of_local_user s owner_id uname"
  let ?s1 = "disable_links e ?ls s"
  let ?s' = "try_disable_if_user_exceeded e owner_id uname s"
  have s': "?s' = mark_user_disabled e owner_id uname ?s1"
    using assms over by (simp add: try_disable_if_user_exceeded_def)
  have fr: "tables ?s1 = tables s" "attempts ?s1 = attempts s @ map (link_attempt Disable) ?ls"
    using disable_links_frame[of e ?ls s] by blast+
  show att: "attempts ?s' = attempts s @ map (link_attempt Disable) ?ls"
    by (simp add: s' mark_user_disabled_logs fr(2))
  have g1: "get_local_user ?s1 owner_id uname = Some lu"
    using get_local_user_tables[OF fr(1)] assms by simp
  have g': "get_local_user ?s' owner_id uname =
      Some (lu\<lparr>lu_disabled_pushed := 1, lu_disabled_pushed_at := Some (now e)\<rparr>)"
    by (simp add: s' get_local_user_mark_user_disabled g1)
  then show "map_option lu_disabled_pushed (get_local_user ?s' owner_id uname) = Some 1"
    by simp
  show "\<forall>e'. try_disable_if_user_exceeded e' owner_id uname ?s' = ?s'"
  proof
    fix e'
    show "try_disable_if_user_exceeded e' owner_id uname ?s' = ?s'"
      by (rule try_disable_pushed_noop[OF g']) simp
  qed
qed

theorem user_disable_once_witness:
  "get_local_user ex_state 7 (ustr ''bob'') = Some ex_bob
   \<and> lu_disabled_pushed ex_bob = 0
   \<and> attempts (try_disable_if_user_exceeded ex_fail_env 7 (ustr ''bob'') ex_state) =
       [Attempt Disable (ustr ''marzban'') (ustr ''http://p'') (ustr ''tok'') (ustr ''bob1'')]
   \<and> map_option lu_disabled_pushed
       (get_local_user (try_disable_if_user_exceeded ex_fail_env 7 (ustr ''bob'') ex_state)
          7 (ustr ''bob'')) = Some 1
   \<and> try_disable_if_user_exceeded ex_fail_env 7 (ustr ''bob'')
       (try_disable_if_user_exceeded ex_fail_env 7 (ustr ''bob'') ex_state)
     = try_disable_if_user_exceeded ex_fail_env 7 (ustr ''bob'') ex_state"
proof -
  have g: "get_local_user ex_state 7 (ustr ''bob'') = Some ex_bob"
    by (simp add: get_local_user_def ex_state_def ex_bob_def)
  have l: "list_links_of_local_user ex_state 7 (ustr ''bob'') =
     [\<lparr>r_link_id = 1, r_owner_id = 7, r_local_username = ustr ''bob'', r_panel_id = 1,
       r_remote_username = ustr ''bob1'', r_last_used_traffic = 800,
       r_panel_url = ustr ''http://p'', r_access_token = ustr ''tok'',
       r_panel_type = ustr ''marzban''\<rparr>]"
    by (simp add: list_links_of_local_user_def join_panels_def ex_state_def List.map_filter_simps)
  have a: "attempts ex_state = []" by (simp add: ex_state_def)
  from user_disable_once[OF g, of ex_fail_env] show ?thesis
    by (simp add: g l a link_attempt_def ex_bob_def)
qed


lemma find_Some_pred: "find P xs = Some x \<Longrightarrow> P x"
  by (induction xs) (auto split: if_splits)

subsection \<open>A limit of zero means unlimited\<close>

text \<open>
  C5. With \<open>plan_limit_bytes = 0\<close> the over-quota test is false whatever the usage is.
  For a local user the background check then leaves the state as it is, and on the read
  path the user gate adds nothing to what the agent gate did. For an agent
  \<open>over_limit\<close> is false, so the background check and the read-path gate act only when
  the agent is expired.
\<close>

theorem unlimited_never_over_quota:
  "(get_local_user s owner_id uname = Some lu \<and> lu_plan_limit_bytes lu = 0 \<longrightarrow>
      try_disable_if_user_exceeded e owner_id uname s = s)
   \<and> (get_agent s owner_id = Some ag \<and> ag_plan_limit_bytes ag = 0 \<longrightarrow>
        \<not> agent_over_limit s owner_id ag
        \<and> (\<not> agent_expired e ag \<longrightarrow> try_disable_agent_if_exceeded e owner_id s = s))
   \<and> (get_agent_app e s owner_id = Some ag' \<and> ag_plan_limit_bytes ag' = 0
        \<and> \<not> agent_expired e ag' \<longrightarrow> agent_gate e owner_id s = (False, s))
   \<and> (get_owner_id s uname app_key = Some owner_id \<and> owner_id \<noteq> 0
        \<and> get_local_user_app e s owner_id uname = Some lu' \<and> lu_plan_limit_bytes lu' = 0 \<longrightarrow>
        snd (unified_links e uname app_key want_html s) = snd (agent_gate e owner_id s))"
proof (intro conjI impI)
  assume "get_local_user s owner_id uname = Some lu \<and> lu_plan_limit_bytes lu = 0"
  then show "try_disable_if_user_exceeded e owner_id uname s = s"
    by (simp add: try_disable_if_user_exceeded_def)
next
  assume a: "get_agent s owner_id = Some ag \<and> ag_plan_limit_bytes ag = 0"
  then show "\<not> agent_over_limit s owner_id ag"
    by (simp add: agent_over_limit_def)
  assume "\<not> agent_expired e ag"
  with a show "try_disable_agent_if_exceeded e owner_id s = s"
    by (simp add: try_disable_agent_if_exceeded_def agent_over_limit_def)
next
  assume "get_agent_app e s owner_id = Some ag' \<and> ag_plan_limit_bytes ag' = 0
        \<and> \<not> agent_expired e ag'"
  then show "agent_gate e owner_id s = (False, s)"
    by (simp add: agent_gate_def agent_expired_def)
next
  assume a: "get_owner_id s uname app_key = Some owner_id \<and> owner_id \<noteq> 0
        \<and> get_local_user_app e s owner_id uname = Some lu' \<and> lu_plan_limit_bytes lu' = 0"
  obtain b s1 where g: "agent_gate e owner_id s = (b, s1)"
    by (cases "agent_gate e owner_id s")
  show "snd (unified_links e uname app_key want_html s) = snd (agent_gate e owner_id s)"
    using a g by (simp add: unified_links_def Let_def)
qed

theorem unlimited_never_over_quota_witness:
  "get_local_user ex_unlimited 7 (ustr ''amy'') = Some ex_amy \<and> lu_plan_limit_bytes ex_amy = 0
   \<and> lu_used_bytes ex_amy = 5000
   \<and> try_disable_if_user_exceeded ex_fail_env 7 (ustr ''amy'') ex_unlimited = ex_unlimited
   \<and> get_agent ex_unlimited 7 = Some ex_agent \<and> ag_total_used_bytes ex_agent = 99999
   \<and> \<not> agent_expired ex_fail_env ex_agent
   \<and> try_disable_agent_if_exceeded ex_fail_env 7 ex_unlimited = ex_unlimited
   \<and> agent_gate ex_fail_env 7 ex_unlimited = (False, ex_unlimited)
   \<and> snd (unified_links ex_fail_env (ustr ''amy'') (ustr ''key'') False ex_unlimited) = ex_unlimited"
proof -
  have 1: "get_local_user ex_unlimited 7 (ustr ''amy'') = Some ex_amy"
    by (simp add: get_local_user_def ex_unlimited_def ex_amy_def)
  have 2: "get_agent ex_unlimited 7 = Some ex_agent"
    by (simp add: get_agent_def ex_unlimited_def ex_agent_def)
  have 3: "get_agent_app ex_fail_env ex_unlimited 7 = Some ex_agent"
    by (simp add: get_agent_app_def ex_unlimited_def expand_owner_ids_def ex_fail_env_def
        ex_agent_def)
  have 4: "get_owner_id ex_unlimited (ustr ''amy'') (ustr ''key'') = Some 7"
    by (simp add: get_owner_id_def ex_unlimited_def)
  have 5: "get_local_user_app ex_fail_env ex_unlimited 7 (ustr ''amy'') = Some ex_amy"
    by (simp add: get_local_user_app_def ex_unlimited_def expand_owner_ids_def ex_fail_env_def
        ex_amy_def)
  have 6: "lu_plan_limit_bytes ex_amy = 0" "lu_used_bytes ex_amy = 5000"
    "ag_plan_limit_bytes ex_agent = 0" "ag_total_used_bytes ex_agent = 99999"
    "\<not> agent_expired ex_fail_env ex_agent"
    by (simp_all add: ex_amy_def ex_agent_def agent_expired_def)
  from unlimited_never_over_quota[of ex_unlimited 7 "ustr ''amy''" ex_amy ex_fail_env ex_agent
      ex_agent "ustr ''key''" ex_amy False]
  show ?thesis
    by (simp add: 1 2 3 4 5 6)
qed

subsection \<open>Inactive agents are left alone\<close>

text \<open>
  C10. For an agent row with \<open>active = 0\<close> both agent-level functions of the polling
  loop return the state they were given: no attempt, no call, no flag changed, expired and
  over quota or not. On the read path \<open>get_agent\<close> only returns rows with
  \<open>active = 1\<close>; when every agent row of the owner is inactive the gate finds no agent,
  does not block and changes nothing.
\<close>

theorem inactive_agent_untouched:
  "(get_agent s owner_id = Some ag \<and> ag_active ag = 0 \<longrightarrow>
      try_disable_agent_if_exceeded e owner_id s = s \<and> try_enable_agent_if_ok e owner_id s = s)
   \<and> (get_agent_app e s owner_id = Some ag' \<longrightarrow> ag_active ag' = 1)
   \<and> ((\<forall>a \<in> set (agents s). ag_telegram_user_id a \<in> set (expand_owner_ids e owner_id)
           \<longrightarrow> ag_active a = 0) \<longrightarrow>
        get_agent_app e s owner_id = None \<and> agent_gate e owner_id s = (False, s))"
proof (intro conjI impI)
  assume a: "get_agent s owner_id = Some ag \<and> ag_active ag = 0"
  then show "try_disable_agent_if_exceeded e owner_id s = s"
    by (simp add: try_disable_agent_if_exceeded_def)
  from a show "try_enable_agent_if_ok e owner_id s = s"
    by (simp add: try_enable_agent_if_ok_def)
next
  assume "get_agent_app e s owner_id = Some ag'"
  then show "ag_active ag' = 1"
    unfolding get_agent_app_def by (auto dest: find_Some_pred)
next
  assume a: "\<forall>a \<in> set (agents s). ag_telegram_user_id a \<in> set (expand_owner_ids e owner_id)
           \<longrightarrow> ag_active a = 0"
  then show n: "get_agent_app e s owner_id = None"
    unfolding get_agent_app_def by (auto simp: find_None_iff)
  then show "agent_gate e owner_id s = (False, s)"
    by (simp add: agent_gate_def)
qed

theorem inactive_agent_untouched_witness:
  "map_option ag_active (get_agent ex_inactive 7) = Some 0
   \<and> map_option (agent_expired ex_fail_env) (get_agent ex_inactive 7) = Some True
   \<and> map_option (agent_over_limit ex_inactive 7) (get_agent ex_inactive 7) = Some True
   \<and> try_disable_agent_if_exceeded ex_fail_env 7 ex_inactive = ex_inactive
   \<and> try_enable_agent_if_ok ex_fail_env 7 ex_inactive = ex_inactive
   \<and> agent_gate ex_fail_env 7 ex_inactive = (False, ex_inactive)"
proof -
  let ?ag = "\<lparr>ag_telegram_user_id = 7, ag_plan_limit_bytes = 10,
       ag_expire_at = Some 5, ag_active = 0, ag_total_used_bytes = 500,
       ag_disabled_pushed = 0, ag_disabled_pushed_at = None\<rparr>"
  have 1: "get_agent ex_inactive 7 = Some ?ag"
    by (simp add: get_agent_def ex_inactive_def)
  have 2: "agent_expired ex_fail_env ?ag" "agent_over_limit ex_inactive 7 ?ag"
    by (simp_all add: agent_expired_def agent_over_limit_def total_used_by_owner_def
        ex_inactive_def ex_fail_env_def)
  have 3: "\<forall>a \<in> set (agents ex_inactive).
             ag_telegram_user_id a \<in> set (expand_owner_ids ex_fail_env 7) \<longrightarrow> ag_active a = 0"
    by (simp add: ex_inactive_def)
  from inactive_agent_untouched[of ex_inactive 7 ?ag ex_fail_env ?ag]
  show ?thesis
    by (simp add: 1 2 3)
qed


subsection \<open>Baselines and the ledger\<close>

lemma enable_links_frame:
  "tables (enable_links e ls s) = tables s
   \<and> attempts (enable_links e ls s) = attempts s @ map (link_attempt Enable) ls
   \<and> prefix (calls s) (calls (enable_links e ls s))"
proof (induction ls arbitrary: s)
  case Nil
  then show ?case by (simp add: enable_links_def)
next
  case (Cons l ls)
  let ?s1 = "snd (enable_remote e (r_panel_type l) (r_panel_url l) (r_access_token l)
                    (r_remote_username l) s)"
  have step: "enable_links e (l # ls) s = enable_links e ls ?s1"
    by (simp add: enable_links_def)
  have f1: "tables ?s1 = tables s" "attempts ?s1 = attempts s @ [link_attempt Enable l]"
    "prefix (calls s) (calls ?s1)"
    unfolding enable_remote_def link_attempt_def using remote_op_frame by blast+
  from Cons.IH[of ?s1] f1 show ?case
    unfolding step by (auto intro: prefix_order.trans)
qed

lemma same_ledger_refl: "same_ledger s s"
  by (simp add: same_ledger_def)

lemma same_ledger_sym: "same_ledger s s' \<Longrightarrow> same_ledger s' s"
  by (simp add: same_ledger_def)

lemma same_ledger_trans: "same_ledger s s1 \<Longrightarrow> same_ledger s1 s2 \<Longrightarrow> same_ledger s s2"
  by (simp add: same_ledger_def)

lemma same_ledger_tables:
  assumes "tables s' = tables s"
  shows "same_ledger s s'"
  using tables_eqD[OF assms] by (simp add: same_ledger_def)

lemma user_counter_flags [simp]:
  "user_counter (u\<lparr>lu_disabled_pushed := p, lu_disabled_pushed_at := q\<rparr>) = user_counter u"
  by (simp add: user_counter_def)

lemma agent_counter_flags [simp]:
  "agent_counter (a\<lparr>ag_disabled_pushed := p, ag_disabled_pushed_at := q\<rparr>) = agent_counter a"
  by (simp add: agent_counter_def)

lemma map_if_same:
  assumes "\<And>x. f (g x) = f x"
  shows "map f (map (\<lambda>x. if P x then g x else x) xs) = map f xs"
  by (induction xs) (simp_all add: assms)

lemma same_ledger_mark_user_disabled: "same_ledger s (mark_user_disabled e owner_id uname s)"
  by (simp add: same_ledger_def mark_user_disabled_def map_if_same)

lemma same_ledger_mark_user_enabled: "same_ledger s (mark_user_enabled owner_id uname s)"
  by (simp add: same_ledger_def mark_user_enabled_def map_if_same)

lemma same_ledger_mark_all_users_disabled: "same_ledger s (mark_all_users_disabled e owner_id s)"
  by (simp add: same_ledger_def mark_all_users_disabled_def map_if_same)

lemma same_ledger_mark_all_users_enabled: "same_ledger s (mark_all_users_enabled owner_id s)"
  by (simp add: same_ledger_def mark_all_users_enabled_def map_if_same)

lemma same_ledger_mark_agent_disabled: "same_ledger s (mark_agent_disabled e owner_id s)"
  by (simp add: same_ledger_def mark_agent_disabled_def map_if_same)

lemma same_ledger_mark_agent_enabled: "same_ledger s (mark_agent_enabled owner_id s)"
  by (simp add: same_ledger_def mark_agent_enabled_def map_if_same)

lemma same_ledger_disable_links: "same_ledger s (disable_links e ls s)"
  using disable_links_frame[of e ls s] by (blast intro: same_ledger_tables)

lemma same_ledger_enable_links: "same_ledger s (enable_links e ls s)"
  using enable_links_frame[of e ls s] by (blast intro: same_ledger_tables)

lemma same_ledger_try_disable: "same_ledger s (try_disable_if_user_exceeded e owner_id uname s)"
  unfolding try_disable_if_user_exceeded_def
  by (auto split: option.splits simp: Let_def same_ledger_refl
      intro: same_ledger_trans[OF same_ledger_disable_links same_ledger_mark_user_disabled])

lemma same_ledger_try_enable: "same_ledger s (try_enable_if_user_ok e owner_id uname s)"
  unfolding try_enable_if_user_ok_def
  by (auto split: option.splits simp: Let_def same_ledger_refl
      intro: same_ledger_trans[OF same_ledger_enable_links same_ledger_mark_user_enabled])

lemma same_ledger_foldl:
  assumes "\<And>s x. same_ledger s (f s x)"
  shows "same_ledger s (foldl f s xs)"
proof (induction xs arbitrary: s)
  case Nil
  then show ?case by (simp add: same_ledger_refl)
next
  case (Cons x xs)
  from same_ledger_trans[OF assms[of s x] Cons.IH[of "f s x"]] show ?case by simp
qed

lemma same_ledger_remote_op: "same_ledger s (snd (remote_op e k pt url tok ru s))"
  using remote_op_frame[of e k pt url tok ru s] by (blast intro: same_ledger_tables)

lemma same_ledger_disable_user_on_assigned_panels:
  "same_ledger s (disable_user_on_assigned_panels e owner_id uname s)"
  unfolding disable_user_on_assigned_panels_def disable_remote_def
  by (rule same_ledger_foldl) (rule same_ledger_remote_op)

lemma same_ledger_enable_user_on_assigned_panels:
  "same_ledger s (enable_user_on_assigned_panels e owner_id uname s)"
  unfolding enable_user_on_assigned_panels_def enable_remote_def
  by (rule same_ledger_foldl) (rule same_ledger_remote_op)

lemma same_ledger_try_disable_agent:
  "same_ledger s (try_disable_agent_if_exceeded e owner_id s)"
proof -
  let ?f = "\<lambda>s uname. disable_user_on_assigned_panels e owner_id uname
                        (disable_links e (list_links_of_local_user s owner_id uname) s)"
  have f: "same_ledger s (?f s uname)" for s uname
    by (rule same_ledger_trans[OF same_ledger_disable_links
          same_ledger_disable_user_on_assigned_panels])
  have "same_ledger s (foldl ?f s us)" for us
    by (rule same_ledger_foldl) (rule f)
  then have "same_ledger s
      (mark_agent_disabled e owner_id (mark_all_users_disabled e owner_id (foldl ?f s us)))" for us
    by (blast intro: same_ledger_trans same_ledger_mark_all_users_disabled
        same_ledger_mark_agent_disabled)
  then show ?thesis
    unfolding try_disable_agent_if_exceeded_def
    by (simp split: option.splits add: Let_def same_ledger_refl)
qed

lemma same_ledger_try_enable_agent:
  "same_ledger s (try_enable_agent_if_ok e owner_id s)"
proof -
  let ?f = "\<lambda>s uname. enable_user_on_assigned_panels e owner_id uname
                        (enable_links e (list_links_of_local_user s owner_id uname) s)"
  have f: "same_ledger s (?f s uname)" for s uname
    by (rule same_ledger_trans[OF same_ledger_enable_links
          same_ledger_enable_user_on_assigned_panels])
  have "same_ledger s (foldl ?f s us)" for us
    by (rule same_ledger_foldl) (rule f)
  then have "same_ledger s
      (mark_agent_enabled owner_id (mark_all_users_enabled owner_id (foldl ?f s us)))" for us
    by (blast intro: same_ledger_trans same_ledger_mark_all_users_enabled
        same_ledger_mark_agent_enabled)
  then show ?thesis
    unfolding try_enable_agent_if_ok_def
    by (simp split: option.splits add: Let_def same_ledger_refl)
qed

lemma same_ledger_agent_pass:
  "same_ledger s
     (foldl (\<lambda>s owner_id. try_enable_agent_if_ok e owner_id
                             (try_disable_agent_if_exceeded e owner_id s)) s owners)"
  by (rule same_ledger_foldl)
     (rule same_ledger_trans[OF same_ledger_try_disable_agent same_ledger_try_enable_agent])

lemma find_projection:
  assumes "map f xs = map f ys" "\<And>x. P x = Q (f x)" "\<And>x. g x = h (f x)"
  shows "map_option g (find P xs) = map_option g (find P ys)"
  using assms(1)
proof (induction xs arbitrary: ys)
  case Nil
  then show ?case by simp
next
  case (Cons x xs)
  then obtain y ys' where ys: "ys = y # ys'" "f x = f y" "map f xs = map f ys'"
    by (cases ys) auto
  have "P x = P y" "g x = g y" using ys(2) assms(2,3) by simp_all
  with Cons.IH[OF ys(3)] ys(1) show ?case by simp
qed

lemma same_ledger_used_bytes:
  assumes "same_ledger s s'"
  shows "used_bytes_of s' owner_id uname = used_bytes_of s owner_id uname"
  unfolding used_bytes_of_def get_local_user_def
  by (rule find_projection[where f = user_counter
        and Q = "\<lambda>t. fst t = owner_id \<and> fst (snd t) = uname" and h = "\<lambda>t. snd (snd t)"])
     (use assms in \<open>simp_all add: same_ledger_def user_counter_def\<close>)

lemma same_ledger_total_used:
  assumes "same_ledger s s'"
  shows "total_used_of s' owner_id = total_used_of s owner_id"
  unfolding total_used_of_def get_agent_def
  by (rule find_projection[where f = agent_counter
        and Q = "\<lambda>t. fst t = owner_id" and h = snd])
     (use assms in \<open>simp_all add: same_ledger_def agent_counter_def\<close>)

lemma same_ledger_fetch_all_links:
  assumes "same_ledger s s'"
  shows "fetch_all_links s' = fetch_all_links s"
  using assms by (simp add: same_ledger_def fetch_all_links_def join_panels_def)

lemma list_all_projection:
  assumes "map f xs = map f ys" "\<And>x. P x = Q (f x)"
  shows "list_all P xs = list_all P ys"
proof -
  have "list_all P zs = list_all Q (map f zs)" for zs
    by (induction zs) (simp_all add: assms(2))
  then show ?thesis by (simp add: assms(1))
qed

lemma same_ledger_in_range:
  assumes "same_ledger s s'"
  shows "in_range e rows s' = in_range e rows s"
proof -
  have u: "list_all (\<lambda>u. lu_used_bytes u + user_credit e rows (lu_owner_id u) (lu_username u)
                     \<le> BIGINT_MAX) (local_users s')
         = list_all (\<lambda>u. lu_used_bytes u + user_credit e rows (lu_owner_id u) (lu_username u)
                     \<le> BIGINT_MAX) (local_users s)"
    by (rule list_all_projection[where f = user_counter
          and Q = "\<lambda>t. snd (snd t) + user_credit e rows (fst t) (fst (snd t)) \<le> BIGINT_MAX"])
       (use assms in \<open>simp_all add: same_ledger_def user_counter_def\<close>)
  have a: "list_all (\<lambda>a. ag_total_used_bytes a + owner_credit e rows (ag_telegram_user_id a)
                     \<le> BIGINT_MAX) (agents s')
         = list_all (\<lambda>a. ag_total_used_bytes a + owner_credit e rows (ag_telegram_user_id a)
                     \<le> BIGINT_MAX) (agents s)"
    by (rule list_all_projection[where f = agent_counter
          and Q = "\<lambda>t. snd t + owner_credit e rows (fst t) \<le> BIGINT_MAX"])
       (use assms in \<open>simp_all add: same_ledger_def agent_counter_def\<close>)
  show ?thesis by (simp only: in_range_def u a)
qed

subsection \<open>The body of the loop on the ledger\<close>

lemma row_delta_nonneg: "0 \<le> row_delta e r"
  by (simp add: row_delta_def split: option.splits)

lemma user_credit_nonneg: "0 \<le> user_credit e rows owner_id uname"
  unfolding user_credit_def by (rule sum_list_nonneg) (auto simp: row_delta_nonneg)

lemma owner_credit_nonneg: "0 \<le> owner_credit e rows owner_id"
  unfolding owner_credit_def by (rule sum_list_nonneg) (auto simp: row_delta_nonneg)

lemma user_credit_Cons:
  "user_credit e (r # rows) owner_id uname =
     (if r_owner_id r = owner_id \<and> r_local_username r = uname then row_delta e r else 0)
     + user_credit e rows owner_id uname"
  by (simp add: user_credit_def)

lemma owner_credit_Cons:
  "owner_credit e (r # rows) owner_id =
     (if r_owner_id r = owner_id then row_delta e r else 0) + owner_credit e rows owner_id"
  by (simp add: owner_credit_def)

lemma user_credit_Nil [simp]: "user_credit e [] owner_id uname = 0"
  by (simp add: user_credit_def)

lemma owner_credit_Nil [simp]: "owner_credit e [] owner_id = 0"
  by (simp add: owner_credit_def)

text \<open>Within the range of the columns the cap of \<open>add_usage\<close> is never reached.\<close>

lemma add_usage_noop: "delta \<le> 0 \<Longrightarrow> add_usage owner_id uname delta s = Inr s"
  by (simp add: add_usage_def)

lemma add_usage_fits:
  assumes "0 < delta"
    and "list_all (\<lambda>u. lu_owner_id u = owner_id \<and> lu_username u = uname
                          \<longrightarrow> lu_used_bytes u + delta \<le> BIGINT_MAX) (local_users s)"
    and "list_all (\<lambda>a. ag_telegram_user_id a = owner_id
                          \<longrightarrow> ag_total_used_bytes a + delta \<le> BIGINT_MAX) (agents s)"
  shows "add_usage owner_id uname delta s = Inr (add_delta owner_id uname delta s)"
proof -
  have m: "x + delta \<le> BIGINT_MAX \<Longrightarrow> min (x + delta) 18446744073709551615 = x + delta" for x
    by (simp add: BIGINT_MAX_def)
  have n1: "\<not> list_ex (\<lambda>u. lu_owner_id u = owner_id \<and> lu_username u = uname \<and>
                            BIGINT_MAX < min (lu_used_bytes u + delta) 18446744073709551615)
                      (local_users s)"
    using assms(2) by (auto simp: list_all_iff list_ex_iff m)
  have n2: "\<not> list_ex (\<lambda>a. ag_telegram_user_id a = owner_id \<and>
                            BIGINT_MAX < min (ag_total_used_bytes a + delta) 18446744073709551615)
                      (agents s)"
    using assms(3) by (auto simp: list_all_iff list_ex_iff m)
  have u: "map (\<lambda>u. if lu_owner_id u = owner_id \<and> lu_username u = uname
                     then u\<lparr>lu_used_bytes := min (lu_used_bytes u + delta) 18446744073709551615\<rparr>
                     else u) (local_users s)
         = map (\<lambda>u. if lu_owner_id u = owner_id \<and> lu_username u = uname
                     then u\<lparr>lu_used_bytes := lu_used_bytes u + delta\<rparr> else u) (local_users s)"
    by (rule map_cong[OF refl]) (use assms(2) in \<open>auto simp: list_all_iff m\<close>)
  have a: "map (\<lambda>a. if ag_telegram_user_id a = owner_id
                     then a\<lparr>ag_total_used_bytes :=
                              min (ag_total_used_bytes a + delta) 18446744073709551615\<rparr>
                     else a) (agents s)
         = map (\<lambda>a. if ag_telegram_user_id a = owner_id
                     then a\<lparr>ag_total_used_bytes := ag_total_used_bytes a + delta\<rparr> else a)
               (agents s)"
    by (rule map_cong[OF refl]) (use assms(3) in \<open>auto simp: list_all_iff m\<close>)
  show ?thesis
    using assms(1) n1 n2 by (simp add: add_usage_def add_delta_def u a)
qed

lemma add_usage_overflow:
  assumes "0 < delta"
    and "get_local_user s owner_id uname = Some u" "BIGINT_MAX < lu_used_bytes u + delta"
  shows "add_usage owner_id uname delta s = Inl OutOfRange"
proof -
  from assms(2) have "u \<in> set (local_users s)"
    "lu_owner_id u = owner_id \<and> lu_username u = uname"
    unfolding get_local_user_def by (auto simp: find_Some_iff)
  moreover have "BIGINT_MAX < min (lu_used_bytes u + delta) 18446744073709551615"
    using assms(3) by (simp add: BIGINT_MAX_def)
  ultimately have "list_ex (\<lambda>u. lu_owner_id u = owner_id \<and> lu_username u = uname \<and>
                            BIGINT_MAX < min (lu_used_bytes u + delta) 18446744073709551615)
                      (local_users s)"
    unfolding list_ex_iff by blast
  with assms(1) show ?thesis by (simp add: add_usage_def)
qed

lemma insort_key_map:
  assumes "\<And>y. k (f y) = k y"
  shows "insort_key k (f x) (map f xs) = map f (insort_key k x xs)"
  by (induction xs) (simp_all add: assms)

lemma sort_key_map:
  assumes "\<And>y. k (f y) = k y"
  shows "sort_key k (map f xs) = map f (sort_key k xs)"
  by (induction xs) (simp_all add: insort_key_map[where k = k and f = f, OF assms])

lemma join_panels_rebase:
  assumes "panels s' = panels s"
  shows "join_panels s'
           (map (\<lambda>l. if l_id l = link_id then l\<lparr>l_last_used_traffic := v\<rparr> else l) ls)
         = map (rebase_row link_id v) (join_panels s ls)"
proof (induction ls)
  case Nil
  then show ?case by (simp add: join_panels_def List.map_filter_simps)
next
  case (Cons l ls)
  then show ?case
    unfolding join_panels_def
    by (cases "find (\<lambda>p. p_id p = l_panel_id l) (panels s)")
       (simp_all add: List.map_filter_simps assms rebase_row_def)
qed

lemma fetch_all_links_update_last:
  "fetch_all_links (update_last link_id v s) = map (rebase_row link_id v) (fetch_all_links s)"
proof -
  let ?g = "\<lambda>l. if l_id l = link_id then l\<lparr>l_last_used_traffic := v\<rparr> else l"
  have k: "l_id (?g y) = l_id y" for y by simp
  have "sort_key l_id (map ?g (local_user_panel_links s))
          = map ?g (sort_key l_id (local_user_panel_links s))"
    by (rule sort_key_map[where k = l_id and f = ?g, OF k])
  moreover have "panels (update_last link_id v s) = panels s"
    by (simp add: update_last_def)
  ultimately show ?thesis
    by (simp add: fetch_all_links_def update_last_def join_panels_rebase)
qed



lemma update_last_frame:
  "local_users (update_last link_id v s) = local_users s"
  "agents (update_last link_id v s) = agents s"
  "attempts (update_last link_id v s) = attempts s"
  "calls (update_last link_id v s) = calls s"
  "panels (update_last link_id v s) = panels s"
  by (simp_all add: update_last_def)

lemma update_last_ids:
  "map l_id (local_user_panel_links (update_last link_id v s)) = map l_id (local_user_panel_links s)"
  by (simp add: update_last_def map_if_same)

lemma add_delta_zero: "add_delta owner_id uname 0 s = s"
  by (simp add: add_delta_def cong: if_cong)

lemma add_delta_frame:
  "panels (add_delta owner_id uname d s) = panels s"
  "local_user_panel_links (add_delta owner_id uname d s) = local_user_panel_links s"
  "fetch_all_links (add_delta owner_id uname d s) = fetch_all_links s"
  by (simp_all add: add_delta_def fetch_all_links_def join_panels_def)

lemma row_delta_cases:
  "fetch_row e r = None \<Longrightarrow> row_delta e r = 0"
  "fetch_row e r = Some used \<Longrightarrow> used \<le> r_last_used_traffic r \<Longrightarrow> row_delta e r = 0"
  "fetch_row e r = Some used \<Longrightarrow> r_last_used_traffic r < used
     \<Longrightarrow> row_delta e r = used - r_last_used_traffic r"
  by (simp_all add: row_delta_def)

lemma credit_row_eq:
  "credit_row e r s =
     (if fetch_row e r = None \<or> fetch_row e r = Some (r_last_used_traffic r)
      then add_delta (r_owner_id r) (r_local_username r) (row_delta e r) s
      else update_last (r_link_id r) (row_baseline e r)
             (add_delta (r_owner_id r) (r_local_username r) (row_delta e r) s))"
  by (cases "fetch_row e r")
     (auto simp: credit_row_def row_baseline_def row_delta_def add_delta_zero)

lemma credit_row_local_users:
  "local_users (credit_row e r s) =
     map (\<lambda>u. if lu_owner_id u = r_owner_id r \<and> lu_username u = r_local_username r
               then u\<lparr>lu_used_bytes := lu_used_bytes u + row_delta e r\<rparr> else u) (local_users s)"
  by (simp add: credit_row_eq update_last_frame) (simp add: add_delta_def)

lemma credit_row_agents:
  "agents (credit_row e r s) =
     map (\<lambda>a. if ag_telegram_user_id a = r_owner_id r
               then a\<lparr>ag_total_used_bytes := ag_total_used_bytes a + row_delta e r\<rparr> else a)
         (agents s)"
  by (simp add: credit_row_eq update_last_frame) (simp add: add_delta_def)

lemma credit_row_panels: "panels (credit_row e r s) = panels s"
  by (simp add: credit_row_eq update_last_frame add_delta_frame)

lemma credit_row_links:
  "local_user_panel_links (credit_row e r s) =
     (if fetch_row e r = None \<or> fetch_row e r = Some (r_last_used_traffic r)
      then local_user_panel_links s
      else map (\<lambda>l. if l_id l = r_link_id r then l\<lparr>l_last_used_traffic := row_baseline e r\<rparr>
                     else l) (local_user_panel_links s))"
  by (simp add: credit_row_eq add_delta_frame) (simp add: update_last_def add_delta_frame)

lemma credit_row_link_ids:
  "map l_id (local_user_panel_links (credit_row e r s)) = map l_id (local_user_panel_links s)"
  by (simp add: credit_row_links map_if_same)

lemma credit_row_fetch_all_links:
  "fetch_all_links (credit_row e r s) = map (settle_row e r) (fetch_all_links s)"
proof (cases "fetch_row e r")
  case None
  then have "settle_row e r = (\<lambda>x. x)"
    by (intro ext) (simp add: settle_row_def)
  with None show ?thesis by (simp add: credit_row_def)
next
  case (Some used)
  then have "settle_row e r =
      (if used = r_last_used_traffic r then (\<lambda>x. x) else rebase_row (r_link_id r) used)"
    by (intro ext) (simp add: settle_row_def)
  with Some show ?thesis
    by (simp add: credit_row_def fetch_all_links_update_last add_delta_frame)
qed

lemma user_counter_bump:
  "map user_counter
     (map (\<lambda>u. if lu_owner_id u = owner_id \<and> lu_username u = uname
                then u\<lparr>lu_used_bytes := lu_used_bytes u + d\<rparr> else u) xs)
   = map (\<lambda>t. if fst t = owner_id \<and> fst (snd t) = uname
               then (fst t, fst (snd t), snd (snd t) + d) else t) (map user_counter xs)"
  by (induction xs) (simp_all add: user_counter_def)

lemma agent_counter_bump:
  "map agent_counter
     (map (\<lambda>a. if ag_telegram_user_id a = owner_id
                then a\<lparr>ag_total_used_bytes := ag_total_used_bytes a + d\<rparr> else a) xs)
   = map (\<lambda>t. if fst t = owner_id then (fst t, snd t + d) else t) (map agent_counter xs)"
  by (induction xs) (simp_all add: agent_counter_def)

lemma same_ledger_credit_row:
  assumes "same_ledger s t"
  shows "same_ledger (credit_row e r s) (credit_row e r t)"
  using assms unfolding same_ledger_def
  by (simp only: credit_row_panels credit_row_links credit_row_local_users credit_row_agents
      user_counter_bump agent_counter_bump)

lemma process_row_fetch_failed:
  assumes "fetch_row e row = None"
  shows "process_row e row (s, seen) = Inr (s, seen)"
  using assms by (simp add: process_row_def fetch_row_def)

lemma process_row_lower:
  assumes "fetch_row e row = Some used" "used < r_last_used_traffic row"
  shows "process_row e row (s, seen) = Inr (update_last (r_link_id row) used s, seen)"
  using assms by (simp add: process_row_def fetch_row_def)

lemma process_row_same:
  assumes "fetch_row e row = Some (r_last_used_traffic row)"
  shows "process_row e row (s, seen) =
           Inr (try_enable_if_user_ok e (r_owner_id row) (r_local_username row)
                  (try_disable_if_user_exceeded e (r_owner_id row) (r_local_username row) s),
                List.insert (r_owner_id row) seen)"
  using assms by (simp add: process_row_def fetch_row_def Let_def)

lemma process_row_higher:
  assumes "fetch_row e row = Some used" "r_last_used_traffic row < used"
  shows "process_row e row (s, seen) =
           (case add_usage (r_owner_id row) (r_local_username row)
                   (used - r_last_used_traffic row) s of
              Inl err \<Rightarrow> Inl err
            | Inr s0 \<Rightarrow>
                Inr (try_enable_if_user_ok e (r_owner_id row) (r_local_username row)
                       (try_disable_if_user_exceeded e (r_owner_id row) (r_local_username row)
                          (update_last (r_link_id row) used s0)),
                     List.insert (r_owner_id row) seen))"
  using assms by (simp add: process_row_def fetch_row_def Let_def split: sum.splits)

lemma same_ledger_enforce:
  "same_ledger s (try_enable_if_user_ok e owner_id uname
                    (try_disable_if_user_exceeded e owner_id uname s))"
  by (rule same_ledger_trans[OF same_ledger_try_disable same_ledger_try_enable])

lemma process_row_credit:
  assumes "list_all (\<lambda>u. lu_owner_id u = r_owner_id r \<and> lu_username u = r_local_username r
                          \<longrightarrow> lu_used_bytes u + row_delta e r \<le> BIGINT_MAX) (local_users s)"
    and "list_all (\<lambda>a. ag_telegram_user_id a = r_owner_id r
                          \<longrightarrow> ag_total_used_bytes a + row_delta e r \<le> BIGINT_MAX) (agents s)"
  shows "\<exists>s1 seen1. process_row e r (s, seen) = Inr (s1, seen1)
                     \<and> same_ledger (credit_row e r s) s1"
proof (cases "fetch_row e r")
  case None
  then show ?thesis
    by (simp add: process_row_fetch_failed credit_row_def same_ledger_refl)
next
  case (Some used)
  consider "used < r_last_used_traffic r" | "used = r_last_used_traffic r"
    | "r_last_used_traffic r < used" by linarith
  then show ?thesis
  proof cases
    case 1
    with Some have "credit_row e r s = update_last (r_link_id r) used s"
      by (simp add: credit_row_def row_delta_def add_delta_zero)
    with process_row_lower[OF Some 1] show ?thesis by (simp add: same_ledger_refl)
  next
    case 2
    with Some have c: "credit_row e r s = s" by (simp add: credit_row_def)
    from Some 2 have "fetch_row e r = Some (r_last_used_traffic r)" by simp
    from process_row_same[OF this] show ?thesis
      by (simp add: c same_ledger_enforce)
  next
    case 3
    let ?d = "used - r_last_used_traffic r"
    have d: "row_delta e r = ?d" "0 < ?d" using Some 3 by (simp_all add: row_delta_def)
    have a: "add_usage (r_owner_id r) (r_local_username r) ?d s
               = Inr (add_delta (r_owner_id r) (r_local_username r) ?d s)"
      by (rule add_usage_fits[OF d(2)]) (use assms d(1) in simp_all)
    have c: "credit_row e r s
               = update_last (r_link_id r) used (add_delta (r_owner_id r) (r_local_username r) ?d s)"
      using Some 3 d(1) by (simp add: credit_row_def)
    show ?thesis
      unfolding process_row_higher[OF Some 3] a c
      by (simp add: same_ledger_enforce)
  qed
qed

lemma in_range_Cons:
  assumes "in_range e (r # rows) s"
  shows "list_all (\<lambda>u. lu_owner_id u = r_owner_id r \<and> lu_username u = r_local_username r
                          \<longrightarrow> lu_used_bytes u + row_delta e r \<le> BIGINT_MAX) (local_users s)"
    and "list_all (\<lambda>a. ag_telegram_user_id a = r_owner_id r
                          \<longrightarrow> ag_total_used_bytes a + row_delta e r \<le> BIGINT_MAX) (agents s)"
    and "in_range e rows (credit_row e r s)"
proof -
  from assms have u: "\<And>u. u \<in> set (local_users s) \<Longrightarrow>
      lu_used_bytes u
        + ((if r_owner_id r = lu_owner_id u \<and> r_local_username r = lu_username u
            then row_delta e r else 0)
           + user_credit e rows (lu_owner_id u) (lu_username u)) \<le> BIGINT_MAX"
    and a: "\<And>a. a \<in> set (agents s) \<Longrightarrow>
      ag_total_used_bytes a
        + ((if r_owner_id r = ag_telegram_user_id a then row_delta e r else 0)
           + owner_credit e rows (ag_telegram_user_id a)) \<le> BIGINT_MAX"
    and b: "list_all (\<lambda>r. storable (row_baseline e r)) rows"
    by (simp_all add: in_range_def list_all_iff user_credit_Cons owner_credit_Cons)
  show "list_all (\<lambda>u. lu_owner_id u = r_owner_id r \<and> lu_username u = r_local_username r
                          \<longrightarrow> lu_used_bytes u + row_delta e r \<le> BIGINT_MAX) (local_users s)"
    unfolding list_all_iff
  proof (intro ballI impI)
    fix x assume "x \<in> set (local_users s)"
      "lu_owner_id x = r_owner_id r \<and> lu_username x = r_local_username r"
    with u[of x] user_credit_nonneg[of e rows "lu_owner_id x" "lu_username x"]
    show "lu_used_bytes x + row_delta e r \<le> BIGINT_MAX" by simp
  qed
  show "list_all (\<lambda>a. ag_telegram_user_id a = r_owner_id r
                          \<longrightarrow> ag_total_used_bytes a + row_delta e r \<le> BIGINT_MAX) (agents s)"
    unfolding list_all_iff
  proof (intro ballI impI)
    fix x assume "x \<in> set (agents s)" "ag_telegram_user_id x = r_owner_id r"
    with a[of x] owner_credit_nonneg[of e rows "ag_telegram_user_id x"]
    show "ag_total_used_bytes x + row_delta e r \<le> BIGINT_MAX" by simp
  qed
  have "list_all (\<lambda>u. lu_used_bytes u + user_credit e rows (lu_owner_id u) (lu_username u)
                     \<le> BIGINT_MAX) (local_users (credit_row e r s))"
    unfolding credit_row_local_users list_all_iff
  proof
    fix y
    assume "y \<in> set (map (\<lambda>u. if lu_owner_id u = r_owner_id r \<and> lu_username u = r_local_username r
               then u\<lparr>lu_used_bytes := lu_used_bytes u + row_delta e r\<rparr> else u) (local_users s))"
    then obtain x where x: "x \<in> set (local_users s)"
      and y: "y = (if lu_owner_id x = r_owner_id r \<and> lu_username x = r_local_username r
               then x\<lparr>lu_used_bytes := lu_used_bytes x + row_delta e r\<rparr> else x)"
      by auto
    show "lu_used_bytes y + user_credit e rows (lu_owner_id y) (lu_username y) \<le> BIGINT_MAX"
    proof (cases "lu_owner_id x = r_owner_id r \<and> lu_username x = r_local_username r")
      case True
      with u[OF x] y show ?thesis by simp
    next
      case False
      then have "\<not> (r_owner_id r = lu_owner_id x \<and> r_local_username r = lu_username x)" by auto
      with u[OF x] y False show ?thesis by simp
    qed
  qed
  moreover have "list_all (\<lambda>a. ag_total_used_bytes a + owner_credit e rows (ag_telegram_user_id a)
                     \<le> BIGINT_MAX) (agents (credit_row e r s))"
    unfolding credit_row_agents list_all_iff
  proof
    fix y
    assume "y \<in> set (map (\<lambda>a. if ag_telegram_user_id a = r_owner_id r
               then a\<lparr>ag_total_used_bytes := ag_total_used_bytes a + row_delta e r\<rparr> else a)
         (agents s))"
    then obtain x where x: "x \<in> set (agents s)"
      and y: "y = (if ag_telegram_user_id x = r_owner_id r
               then x\<lparr>ag_total_used_bytes := ag_total_used_bytes x + row_delta e r\<rparr> else x)"
      by auto
    show "ag_total_used_bytes y + owner_credit e rows (ag_telegram_user_id y) \<le> BIGINT_MAX"
    proof (cases "ag_telegram_user_id x = r_owner_id r")
      case True
      with a[OF x] y show ?thesis by simp
    next
      case False
      then have "r_owner_id r \<noteq> ag_telegram_user_id x" by auto
      with a[OF x] y False show ?thesis by simp
    qed
  qed
  ultimately show "in_range e rows (credit_row e r s)"
    using b by (simp add: in_range_def)
qed

lemma credit_rows_Cons: "credit_rows e (r # rows) s = credit_rows e rows (credit_row e r s)"
  by (simp add: credit_rows_def)

lemma credit_rows_Nil: "credit_rows e [] s = s"
  by (simp add: credit_rows_def)

lemma process_links_credit:
  assumes "same_ledger t s" "in_range e rows t"
  shows "\<exists>s' seen'. process_links e rows (s, seen) = Inr (s', seen')
                     \<and> same_ledger (credit_rows e rows t) s'"
  using assms
proof (induction rows arbitrary: s t seen)
  case Nil
  then show ?case by (simp add: credit_rows_Nil)
next
  case (Cons r rows)
  from Cons.prems(2) have "in_range e (r # rows) s"
    by (simp only: same_ledger_in_range[OF Cons.prems(1)])
  note f = in_range_Cons[OF this]
  from process_row_credit[OF f(1,2), of seen]
  obtain s1 seen1 where p: "process_row e r (s, seen) = Inr (s1, seen1)"
    and l: "same_ledger (credit_row e r s) s1" by blast
  have l2: "same_ledger (credit_row e r t) s1"
    by (rule same_ledger_trans[OF same_ledger_credit_row[OF Cons.prems(1)] l])
  from Cons.IH[OF l2 in_range_Cons(3)[OF Cons.prems(2)], of seen1]
  show ?case by (simp add: p credit_rows_Cons)
qed

text \<open>A pass within range ends with the ledger of its rows credited one by one.\<close>

lemma loop_cycle_credit:
  assumes "in_range e (fetch_all_links s) s"
  shows "same_ledger (credit_rows e (fetch_all_links s) s) (loop_cycle e s)"
proof -
  from process_links_credit[OF same_ledger_refl assms, of "[]"]
  obtain s' seen' where p: "process_links e (fetch_all_links s) (s, []) = Inr (s', seen')"
    and l: "same_ledger (credit_rows e (fetch_all_links s) s) s'" by blast
  have "loop_cycle e s =
          foldl (\<lambda>s owner_id. try_enable_agent_if_ok e owner_id
                                 (try_disable_agent_if_exceeded e owner_id s)) s' (rev seen')"
    by (simp add: loop_cycle_def p)
  with same_ledger_trans[OF l same_ledger_agent_pass[of s' e "rev seen'"]]
  show ?thesis by simp
qed

lemma credit_rows_local_users:
  "local_users (credit_rows e rows s) =
     map (\<lambda>u. u\<lparr>lu_used_bytes :=
                   lu_used_bytes u + user_credit e rows (lu_owner_id u) (lu_username u)\<rparr>)
         (local_users s)"
proof (induction rows arbitrary: s)
  case Nil
  then show ?case by (simp add: credit_rows_Nil)
next
  case (Cons r rows)
  show ?case
    unfolding credit_rows_Cons Cons.IH credit_row_local_users map_map
    by (rule map_cong[OF refl]) (auto simp: user_credit_Cons)
qed

lemma credit_rows_agents:
  "agents (credit_rows e rows s) =
     map (\<lambda>a. a\<lparr>ag_total_used_bytes :=
                   ag_total_used_bytes a + owner_credit e rows (ag_telegram_user_id a)\<rparr>)
         (agents s)"
proof (induction rows arbitrary: s)
  case Nil
  then show ?case by (simp add: credit_rows_Nil)
next
  case (Cons r rows)
  show ?case
    unfolding credit_rows_Cons Cons.IH credit_row_agents map_map
    by (rule map_cong[OF refl]) (auto simp: owner_credit_Cons)
qed

lemma credit_rows_link_ids:
  "map l_id (local_user_panel_links (credit_rows e rows s)) = map l_id (local_user_panel_links s)"
  by (induction rows arbitrary: s) (simp_all add: credit_rows_Nil credit_rows_Cons credit_row_link_ids)

lemma credit_rows_used_bytes:
  "used_bytes_of (credit_rows e rows s) owner_id uname =
     map_option (\<lambda>x. x + user_credit e rows owner_id uname) (used_bytes_of s owner_id uname)"
proof -
  let ?P = "\<lambda>u. lu_owner_id u = owner_id \<and> lu_username u = uname"
  let ?f = "\<lambda>u. u\<lparr>lu_used_bytes :=
                   lu_used_bytes u + user_credit e rows (lu_owner_id u) (lu_username u)\<rparr>"
  have "find ?P (map ?f (local_users s)) = map_option ?f (find ?P (local_users s))"
    by (rule find_map_same_key) simp
  then have g: "get_local_user (credit_rows e rows s) owner_id uname
                  = map_option ?f (get_local_user s owner_id uname)"
    by (simp add: get_local_user_def credit_rows_local_users)
  show ?thesis
  proof (cases "get_local_user s owner_id uname")
    case None
    with g show ?thesis by (simp add: used_bytes_of_def)
  next
    case (Some u)
    then have "?P u" unfolding get_local_user_def by (rule find_Some_pred)
    with g Some show ?thesis by (simp add: used_bytes_of_def)
  qed
qed

lemma credit_rows_total_used:
  "total_used_of (credit_rows e rows s) owner_id =
     map_option (\<lambda>x. x + owner_credit e rows owner_id) (total_used_of s owner_id)"
proof -
  let ?P = "\<lambda>a. ag_telegram_user_id a = owner_id"
  let ?f = "\<lambda>a. a\<lparr>ag_total_used_bytes :=
                   ag_total_used_bytes a + owner_credit e rows (ag_telegram_user_id a)\<rparr>"
  have "find ?P (map ?f (agents s)) = map_option ?f (find ?P (agents s))"
    by (rule find_map_same_key) simp
  then have g: "get_agent (credit_rows e rows s) owner_id = map_option ?f (get_agent s owner_id)"
    by (simp add: get_agent_def credit_rows_agents)
  show ?thesis
  proof (cases "get_agent s owner_id")
    case None
    with g show ?thesis by (simp add: total_used_of_def)
  next
    case (Some a)
    then have "?P a" unfolding get_agent_def by (rule find_Some_pred)
    with g Some show ?thesis by (simp add: total_used_of_def)
  qed
qed

lemma credit_rows_fetch_all_links:
  "fetch_all_links (credit_rows e rows s)
     = map (\<lambda>x. foldl (\<lambda>x r. settle_row e r x) x rows) (fetch_all_links s)"
  by (induction rows arbitrary: s)
     (simp_all add: credit_rows_Nil credit_rows_Cons credit_row_fetch_all_links comp_def)

lemma settle_row_other:
  assumes "r_link_id r \<noteq> r_link_id x"
  shows "settle_row e r x = x"
  using assms by (simp add: settle_row_def rebase_row_def split: option.splits)

lemma settle_rows_other:
  assumes "r_link_id x \<notin> r_link_id ` set rows"
  shows "foldl (\<lambda>x r. settle_row e r x) x rows = x"
  using assms by (induction rows) (auto simp: settle_row_other)

lemma settle_row_self:
  "settle_row e x x = x\<lparr>r_last_used_traffic := row_baseline e x\<rparr>"
  by (simp add: settle_row_def row_baseline_def rebase_row_def split: option.splits)

lemma settle_rows_distinct:
  assumes "distinct (map r_link_id rows)" "x \<in> set rows"
  shows "foldl (\<lambda>x r. settle_row e r x) x rows = x\<lparr>r_last_used_traffic := row_baseline e x\<rparr>"
proof -
  from assms(2) obtain pre post where sp: "rows = pre @ x # post"
    by (auto dest: split_list)
  with assms(1) have n1: "r_link_id x \<notin> r_link_id ` set pre"
    and n2: "r_link_id x \<notin> r_link_id ` set post" by auto
  let ?y = "x\<lparr>r_last_used_traffic := row_baseline e x\<rparr>"
  have n3: "r_link_id ?y \<notin> r_link_id ` set post" using n2 by simp
  show ?thesis
    unfolding sp
    by (simp add: settle_rows_other[OF n1] settle_row_self settle_rows_other[OF n3])
qed

lemma join_panels_ids:
  "map r_link_id (join_panels s ls)
     = map l_id (filter (\<lambda>l. find (\<lambda>p. p_id p = l_panel_id l) (panels s) \<noteq> None) ls)"
proof (induction ls)
  case Nil
  then show ?case by (simp add: join_panels_def List.map_filter_simps)
next
  case (Cons l ls)
  then show ?case
    unfolding join_panels_def
    by (cases "find (\<lambda>p. p_id p = l_panel_id l) (panels s)")
       (simp_all add: List.map_filter_simps)
qed

lemma fetch_all_links_distinct:
  assumes "distinct (map l_id (local_user_panel_links s))"
  shows "distinct (map r_link_id (fetch_all_links s))"
proof -
  have "distinct (map l_id (sort_key l_id (local_user_panel_links s)))"
    using assms by (simp add: distinct_map)
  then show ?thesis
    unfolding fetch_all_links_def join_panels_ids
    by (rule distinct_map_filter)
qed

lemma credit_rows_settled:
  assumes "distinct (map l_id (local_user_panel_links s))"
  shows "fetch_all_links (credit_rows e (fetch_all_links s) s)
           = map (\<lambda>r. r\<lparr>r_last_used_traffic := row_baseline e r\<rparr>) (fetch_all_links s)"
  unfolding credit_rows_fetch_all_links
  by (rule map_cong[OF refl]) (rule settle_rows_distinct[OF fetch_all_links_distinct[OF assms]])

text \<open>One pass within range, on the counters and on the rows of the next pass.\<close>

lemma loop_cycle_used_bytes:
  assumes "in_range e (fetch_all_links s) s"
  shows "used_bytes_of (loop_cycle e s) owner_id uname =
           map_option (\<lambda>x. x + user_credit e (fetch_all_links s) owner_id uname)
             (used_bytes_of s owner_id uname)"
  by (simp only: same_ledger_used_bytes[OF loop_cycle_credit[OF assms]] credit_rows_used_bytes)

lemma loop_cycle_total_used:
  assumes "in_range e (fetch_all_links s) s"
  shows "total_used_of (loop_cycle e s) owner_id =
           map_option (\<lambda>x. x + owner_credit e (fetch_all_links s) owner_id)
             (total_used_of s owner_id)"
  by (simp only: same_ledger_total_used[OF loop_cycle_credit[OF assms]] credit_rows_total_used)

lemma loop_cycle_rows:
  assumes "in_range e (fetch_all_links s) s" "distinct (map l_id (local_user_panel_links s))"
  shows "fetch_all_links (loop_cycle e s)
           = map (\<lambda>r. r\<lparr>r_last_used_traffic := row_baseline e r\<rparr>) (fetch_all_links s)"
  by (simp only: same_ledger_fetch_all_links[OF loop_cycle_credit[OF assms(1)]]
      credit_rows_settled[OF assms(2)])

lemma loop_cycle_link_ids:
  assumes "in_range e (fetch_all_links s) s"
  shows "map l_id (local_user_panel_links (loop_cycle e s)) = map l_id (local_user_panel_links s)"
proof -
  from loop_cycle_credit[OF assms]
  have "local_user_panel_links (loop_cycle e s)
          = local_user_panel_links (credit_rows e (fetch_all_links s) s)"
    by (simp add: same_ledger_def)
  then show ?thesis by (simp add: credit_rows_link_ids)
qed

lemma ex_two_rows: "fetch_all_links ex_two = [ex_row1, ex_row2]"
  by (simp add: fetch_all_links_def join_panels_def ex_two_def ex_state_def ex_row1_def
      ex_row2_def List.map_filter_simps)

lemma ex_sub_identities:
  "sub_identities (ustr ''a, b'') = [ustr ''a'', ustr ''b'']"
  "sub_identities (ustr ''a,c'') = [ustr ''a'', ustr ''c'']"
  by (simp_all add: sub_identities_def ustr_def comma_def strip_def strip_chars_def is_space_def)

lemma get_api_sanaei: "get_api (ustr ''sanaei'') = Sanaei"
  by (simp add: get_api_def ustr_def)

lemma sum_used_traffic_eq:
  "sum_used_traffic e a url tok rns acc =
     (if \<forall>rn \<in> set rns. is_obj (get_user e a url tok rn)
      then Some (acc + sum_list (map (\<lambda>rn. traffic_of (get_user e a url tok rn)) rns))
      else None)"
proof (induction rns arbitrary: acc)
  case Nil
  then show ?case by simp
next
  case (Cons rn rns)
  show ?case
  proof (cases "get_user e a url tok rn")
    case GetErr
    then show ?thesis by (simp add: is_obj_def)
  next
    case GetRaise
    then show ?thesis by (simp add: is_obj_def)
  next
    case (GetObj t)
    then show ?thesis
      by (cases t) (simp_all add: Cons.IH is_obj_def traffic_of_def)
  qed
qed

lemma fetch_sanaei_joined:
  assumes "comma \<in> set remote_username"
  shows "fetch_used_traffic e (ustr ''sanaei'') panel_url bearer remote_username =
        (if \<forall>rn \<in> set (sub_identities remote_username).
               is_obj (get_user e Sanaei panel_url bearer rn)
         then Some (sum_list (map (\<lambda>rn. traffic_of (get_user e Sanaei panel_url bearer rn))
                               (sub_identities remote_username)))
         else None)"
  using assms unfolding fetch_used_traffic_def sub_identities_def[symmetric]
  by (simp add: get_api_sanaei sum_used_traffic_eq)

lemma ex_comma: "comma \<in> set (ustr ''a, b'')" "comma \<in> set (ustr ''a,c'')"
  by (simp_all add: comma_def ustr_def)

lemma ex_row1_fetch_failed: "fetch_row ex_fetch_env ex_row1 = None"
proof -
  have "get_user ex_fetch_env Sanaei (ustr ''http://p'') (ustr ''tok'') (ustr ''c'') = GetErr"
    by (simp add: ex_fetch_env_def ex_fail_env_def ustr_def)
  then show ?thesis
    by (simp add: fetch_row_def ex_row1_def fetch_sanaei_joined[OF ex_comma(2)]
        ex_sub_identities is_obj_def)
qed

lemma ex_row2_fetch: "fetch_row ex_fetch_env ex_row2 = Some 1100"
  by (simp add: fetch_row_def fetch_used_traffic_def ex_row2_def ex_fetch_env_def
      ex_fail_env_def ustr_def get_api_def)

lemma ex_row1_huge: "fetch_row ex_huge_env ex_row1 = Some 9223372036854775807"
proof -
  have "get_user ex_huge_env Sanaei (ustr ''http://p'') (ustr ''tok'') (ustr ''a'')
          = GetObj (Some 9223372036854775807)"
    "get_user ex_huge_env Sanaei (ustr ''http://p'') (ustr ''tok'') (ustr ''c'') = GetObj None"
    by (simp_all add: ex_huge_env_def ex_fail_env_def ustr_def)
  then show ?thesis
    by (simp add: fetch_row_def ex_row1_def fetch_sanaei_joined[OF ex_comma(2)]
        ex_sub_identities is_obj_def traffic_of_def)
qed

lemma ex_row2_huge: "fetch_row ex_huge_env ex_row2 = Some 1100"
  by (simp add: fetch_row_def fetch_used_traffic_def ex_row2_def ex_huge_env_def
      ex_fail_env_def ustr_def get_api_def)

lemma ex_two_bob: "get_local_user ex_two 7 (ustr ''bob'') = Some ex_bob"
  "used_bytes_of ex_two 7 (ustr ''bob'') = Some 1100"
  by (simp_all add: used_bytes_of_def get_local_user_def ex_two_def ex_state_def ex_bob_def)

lemma process_links_append:
  "process_links e (xs @ ys) acc =
     (case process_links e xs acc of Inl x \<Rightarrow> Inl x | Inr acc' \<Rightarrow> process_links e ys acc')"
proof (induction xs arbitrary: acc)
  case Nil
  then show ?case by simp
next
  case (Cons x xs)
  then show ?case by (cases "process_row e x acc") simp_all
qed

lemma process_links_skip:
  assumes "fetch_row e row = None"
  shows "process_links e (before @ row # rest) (s0, seen0)
           = process_links e (before @ rest) (s0, seen0)"
proof (cases "process_links e before (s0, seen0)")
  case (Inl x)
  then show ?thesis by (simp add: process_links_append)
next
  case (Inr acc)
  obtain s1 seen1 where "acc = (s1, seen1)" by (cases acc)
  with Inr show ?thesis
    by (simp add: process_links_append process_row_fetch_failed[OF assms])
qed

lemma user_credit_skip:
  assumes "fetch_row e row = None"
  shows "user_credit e (before @ row # rest) owner_id uname
           = user_credit e (before @ rest) owner_id uname"
  by (simp add: user_credit_def row_delta_cases(1)[OF assms])

lemma link_row_of_id:
  assumes "link_row_of s i = Some row"
  shows "r_link_id row = i"
  using find_Some_pred[OF assms[unfolded link_row_of_def]] .





lemma process_links_used_bytes:
  assumes "in_range e rows s"
  shows "\<exists>s' seen'. process_links e rows (s, seen) = Inr (s', seen')
           \<and> (\<forall>owner_id uname. used_bytes_of s' owner_id uname =
                  map_option (\<lambda>x. x + user_credit e rows owner_id uname)
                    (used_bytes_of s owner_id uname))
           \<and> (\<forall>owner_id. total_used_of s' owner_id =
                  map_option (\<lambda>x. x + owner_credit e rows owner_id) (total_used_of s owner_id))"
proof -
  from process_links_credit[OF same_ledger_refl assms, of seen]
  obtain s' seen' where p: "process_links e rows (s, seen) = Inr (s', seen')"
    and l: "same_ledger (credit_rows e rows s) s'" by blast
  have "used_bytes_of s' owner_id uname =
          map_option (\<lambda>x. x + user_credit e rows owner_id uname) (used_bytes_of s owner_id uname)"
    for owner_id uname
    by (simp only: same_ledger_used_bytes[OF l] credit_rows_used_bytes)
  moreover have "total_used_of s' owner_id =
          map_option (\<lambda>x. x + owner_credit e rows owner_id) (total_used_of s owner_id)"
    for owner_id
    by (simp only: same_ledger_total_used[OF l] credit_rows_total_used)
  ultimately show ?thesis using p by blast
qed

text \<open>
  C6. For a sanaei link whose remote name is comma-joined, the fetched figure is the sum
  over the sub-identities when every one of them is fetched, and the fetch fails when any
  one does. A row whose fetch fails leaves the whole state (ledger, baselines, flags,
  traces) and \<open>seen_owners\<close> as they were, and the rows after it are still processed: the
  next row goes through the loop body from that very state, the walk ends as it does
  without the failed row, and, the values of the pass fitting the columns, it returns
  with every user and agent credited for the other rows. In a whole pass of \<open>loop\<close> over
  links with distinct ids, the failed row keeps its baseline and every other row ends
  with the baseline the pass settles for it.
\<close>

theorem multi_identity_fetch:
  "(comma \<in> set remote_username \<longrightarrow>
      fetch_used_traffic e (ustr ''sanaei'') panel_url bearer remote_username =
        (if \<forall>rn \<in> set (sub_identities remote_username).
               is_obj (get_user e Sanaei panel_url bearer rn)
         then Some (sum_list (map (\<lambda>rn. traffic_of (get_user e Sanaei panel_url bearer rn))
                               (sub_identities remote_username)))
         else None))
   \<and> (fetch_row e row = None \<longrightarrow>
        process_row e row (s, seen) = Inr (s, seen)
        \<and> process_links e (row # nxt # rest) (s, seen) =
            (case process_row e nxt (s, seen) of
               Inl err \<Rightarrow> Inl (err, s)
             | Inr acc \<Rightarrow> process_links e rest acc)
        \<and> process_links e (before @ row # after) (s0, seen0) =
            process_links e (before @ after) (s0, seen0)
        \<and> (in_range e (before @ after) s0 \<longrightarrow>
             (\<exists>s' seen'. process_links e (before @ row # after) (s0, seen0) = Inr (s', seen')
                \<and> (\<forall>owner_id uname. used_bytes_of s' owner_id uname =
                      map_option (\<lambda>x. x + user_credit e (before @ after) owner_id uname)
                        (used_bytes_of s0 owner_id uname))
                \<and> (\<forall>owner_id. total_used_of s' owner_id =
                      map_option (\<lambda>x. x + owner_credit e (before @ after) owner_id)
                        (total_used_of s0 owner_id))))
        \<and> (row \<in> set (fetch_all_links s1)
            \<and> distinct (map l_id (local_user_panel_links s1))
            \<and> in_range e (fetch_all_links s1) s1 \<longrightarrow>
             row_delta e row = 0
             \<and> fetch_all_links (loop_cycle e s1) =
                 map (\<lambda>r. if r = row then row
                           else r\<lparr>r_last_used_traffic := row_baseline e r\<rparr>)
                     (fetch_all_links s1)
             \<and> (\<forall>owner_id uname. used_bytes_of (loop_cycle e s1) owner_id uname =
                   map_option (\<lambda>x. x + user_credit e (fetch_all_links s1) owner_id uname)
                     (used_bytes_of s1 owner_id uname))))"
proof (intro conjI impI)
  assume "comma \<in> set remote_username"
  then show "fetch_used_traffic e (ustr ''sanaei'') panel_url bearer remote_username =
        (if \<forall>rn \<in> set (sub_identities remote_username).
               is_obj (get_user e Sanaei panel_url bearer rn)
         then Some (sum_list (map (\<lambda>rn. traffic_of (get_user e Sanaei panel_url bearer rn))
                               (sub_identities remote_username)))
         else None)"
    by (rule fetch_sanaei_joined)
next
  assume f: "fetch_row e row = None"
  show "process_row e row (s, seen) = Inr (s, seen)"
    by (rule process_row_fetch_failed[OF f])
  show "process_links e (row # nxt # rest) (s, seen) =
            (case process_row e nxt (s, seen) of
               Inl err \<Rightarrow> Inl (err, s)
             | Inr acc \<Rightarrow> process_links e rest acc)"
    by (simp add: process_row_fetch_failed[OF f] split: sum.splits)
  show sk: "process_links e (before @ row # after) (s0, seen0) =
            process_links e (before @ after) (s0, seen0)"
    by (rule process_links_skip[OF f])
  {
    assume "in_range e (before @ after) s0"
    from process_links_used_bytes[OF this, of seen0]
    show "\<exists>s' seen'. process_links e (before @ row # after) (s0, seen0) = Inr (s', seen')
                \<and> (\<forall>owner_id uname. used_bytes_of s' owner_id uname =
                      map_option (\<lambda>x. x + user_credit e (before @ after) owner_id uname)
                        (used_bytes_of s0 owner_id uname))
                \<and> (\<forall>owner_id. total_used_of s' owner_id =
                      map_option (\<lambda>x. x + owner_credit e (before @ after) owner_id)
                        (total_used_of s0 owner_id))"
      unfolding sk .
  }
  assume a: "row \<in> set (fetch_all_links s1)
            \<and> distinct (map l_id (local_user_panel_links s1))
            \<and> in_range e (fetch_all_links s1) s1"
  show "row_delta e row = 0" by (rule row_delta_cases(1)[OF f])
  have "row\<lparr>r_last_used_traffic := row_baseline e row\<rparr> = row"
    using f by (simp add: row_baseline_def)
  then have "(\<lambda>r. if r = row then row else r\<lparr>r_last_used_traffic := row_baseline e r\<rparr>)
             = (\<lambda>r. r\<lparr>r_last_used_traffic := row_baseline e r\<rparr>)"
    by (intro ext) simp
  with loop_cycle_rows[of e s1] a
  show "fetch_all_links (loop_cycle e s1) =
                 map (\<lambda>r. if r = row then row
                           else r\<lparr>r_last_used_traffic := row_baseline e r\<rparr>)
                     (fetch_all_links s1)"
    by simp
  from a show "\<forall>owner_id uname. used_bytes_of (loop_cycle e s1) owner_id uname =
                   map_option (\<lambda>x. x + user_credit e (fetch_all_links s1) owner_id uname)
                     (used_bytes_of s1 owner_id uname)"
    by (simp add: loop_cycle_used_bytes)
qed

lemma ex_rows_fields:
  "r_owner_id ex_row1 = 7" "r_local_username ex_row1 = ustr ''bob''"
  "r_owner_id ex_row2 = 7" "r_local_username ex_row2 = ustr ''bob''"
  "r_last_used_traffic ex_row1 = 50" "r_last_used_traffic ex_row2 = 800"
  "r_link_id ex_row1 = 1" "r_link_id ex_row2 = 2"
  "ex_row2 \<noteq> ex_row1"
  by (simp_all add: ex_row1_def ex_row2_def)

lemma ex_two_tables:
  "local_users ex_two = [ex_bob]" "agents ex_two = []"
  "lu_owner_id ex_bob = 7" "lu_username ex_bob = ustr ''bob''" "lu_used_bytes ex_bob = 1100"
  "distinct (map l_id (local_user_panel_links ex_two))"
  by (simp_all add: ex_two_def ex_state_def ex_bob_def)

lemma ex_two_deltas:
  "row_delta ex_fetch_env ex_row1 = 0" "row_delta ex_fetch_env ex_row2 = 300"
  "row_baseline ex_fetch_env ex_row1 = 50" "row_baseline ex_fetch_env ex_row2 = 1100"
  by (simp_all add: row_delta_def row_baseline_def ex_row1_fetch_failed ex_row2_fetch
      ex_rows_fields)

lemmas ex_two_facts = ex_rows_fields ex_two_tables ex_two_deltas

lemma ex_two_in_range:
  "in_range ex_fetch_env [ex_row2] ex_two"
  "in_range ex_fetch_env [ex_row1, ex_row2] ex_two"
  by (simp_all add: in_range_def user_credit_def ex_two_facts storable_def BIGINT_MAX_def)

theorem multi_identity_fetch_witness:
  "comma \<in> set (ustr ''a, b'')
   \<and> fetch_used_traffic ex_fetch_env (ustr ''sanaei'') (ustr ''http://p'') (ustr ''tok'')
        (ustr ''a, b'') = Some 30
   \<and> fetch_row ex_fetch_env ex_row1 = None
   \<and> fetch_row ex_fetch_env ex_row2 = Some 1100
   \<and> process_row ex_fetch_env ex_row1 (ex_two, []) = Inr (ex_two, [])
   \<and> in_range ex_fetch_env [ex_row2] ex_two
   \<and> used_bytes_of ex_two 7 (ustr ''bob'') = Some 1100
   \<and> (\<exists>s' seen'. process_links ex_fetch_env [ex_row1, ex_row2] (ex_two, []) = Inr (s', seen')
         \<and> used_bytes_of s' 7 (ustr ''bob'') = Some 1400)
   \<and> ex_row1 \<in> set (fetch_all_links ex_two)
   \<and> distinct (map l_id (local_user_panel_links ex_two))
   \<and> in_range ex_fetch_env (fetch_all_links ex_two) ex_two
   \<and> fetch_all_links (loop_cycle ex_fetch_env ex_two)
       = [ex_row1, ex_row2\<lparr>r_last_used_traffic := 1100\<rparr>]
   \<and> used_bytes_of (loop_cycle ex_fetch_env ex_two) 7 (ustr ''bob'') = Some 1400"
proof -
  have g: "get_user ex_fetch_env Sanaei (ustr ''http://p'') (ustr ''tok'') (ustr ''a'') = GetObj (Some 10)"
    "get_user ex_fetch_env Sanaei (ustr ''http://p'') (ustr ''tok'') (ustr ''b'') = GetObj (Some 20)"
    by (simp_all add: ex_fetch_env_def ex_fail_env_def ustr_def)
  note t = multi_identity_fetch[of "ustr ''a, b''" ex_fetch_env "ustr ''http://p''" "ustr ''tok''"
      ex_row1 ex_two "[]" ex_row2 "[]" "[]" "[ex_row2]" ex_two "[]" ex_two]
  from t have 1: "fetch_used_traffic ex_fetch_env (ustr ''sanaei'') (ustr ''http://p'')
                    (ustr ''tok'') (ustr ''a, b'') = Some 30"
    by (simp add: ex_comma ex_sub_identities g is_obj_def traffic_of_def)
  from t have 2: "process_row ex_fetch_env ex_row1 (ex_two, []) = Inr (ex_two, [])"
    using ex_row1_fetch_failed by blast
  from t have "in_range ex_fetch_env ([] @ [ex_row2]) ex_two \<longrightarrow>
     (\<exists>s' seen'. process_links ex_fetch_env ([] @ ex_row1 # [ex_row2]) (ex_two, []) = Inr (s', seen')
        \<and> (\<forall>owner_id uname. used_bytes_of s' owner_id uname =
              map_option (\<lambda>x. x + user_credit ex_fetch_env ([] @ [ex_row2]) owner_id uname)
                (used_bytes_of ex_two owner_id uname))
        \<and> (\<forall>owner_id. total_used_of s' owner_id =
              map_option (\<lambda>x. x + owner_credit ex_fetch_env ([] @ [ex_row2]) owner_id)
                (total_used_of ex_two owner_id)))"
    using ex_row1_fetch_failed by blast
  then obtain s' seen' where
    p: "process_links ex_fetch_env [ex_row1, ex_row2] (ex_two, []) = Inr (s', seen')"
    and u: "used_bytes_of s' 7 (ustr ''bob'') =
              map_option (\<lambda>x. x + user_credit ex_fetch_env [ex_row2] 7 (ustr ''bob''))
                (used_bytes_of ex_two 7 (ustr ''bob''))"
    using ex_two_in_range(1) by auto
  from u have 3: "used_bytes_of s' 7 (ustr ''bob'') = Some 1400"
    by (simp add: ex_two_bob user_credit_def ex_two_facts)
  from t have c: "ex_row1 \<in> set (fetch_all_links ex_two)
            \<and> distinct (map l_id (local_user_panel_links ex_two))
            \<and> in_range ex_fetch_env (fetch_all_links ex_two) ex_two \<longrightarrow>
             row_delta ex_fetch_env ex_row1 = 0
             \<and> fetch_all_links (loop_cycle ex_fetch_env ex_two) =
                 map (\<lambda>r. if r = ex_row1 then ex_row1
                           else r\<lparr>r_last_used_traffic := row_baseline ex_fetch_env r\<rparr>)
                     (fetch_all_links ex_two)
             \<and> (\<forall>owner_id uname. used_bytes_of (loop_cycle ex_fetch_env ex_two) owner_id uname =
                   map_option (\<lambda>x. x + user_credit ex_fetch_env (fetch_all_links ex_two) owner_id uname)
                     (used_bytes_of ex_two owner_id uname))"
    using ex_row1_fetch_failed by blast
  have h: "ex_row1 \<in> set (fetch_all_links ex_two)
            \<and> distinct (map l_id (local_user_panel_links ex_two))
            \<and> in_range ex_fetch_env (fetch_all_links ex_two) ex_two"
    by (simp add: ex_two_rows ex_two_in_range(2) ex_two_facts)
  from c h have 4: "fetch_all_links (loop_cycle ex_fetch_env ex_two)
       = [ex_row1, ex_row2\<lparr>r_last_used_traffic := 1100\<rparr>]"
    by (simp add: ex_two_rows ex_two_facts)
  from c h have "used_bytes_of (loop_cycle ex_fetch_env ex_two) 7 (ustr ''bob'') =
                   map_option (\<lambda>x. x + user_credit ex_fetch_env (fetch_all_links ex_two) 7 (ustr ''bob''))
                     (used_bytes_of ex_two 7 (ustr ''bob''))"
    by blast
  then have 5: "used_bytes_of (loop_cycle ex_fetch_env ex_two) 7 (ustr ''bob'') = Some 1400"
    by (simp add: ex_two_bob ex_two_rows user_credit_def ex_two_facts)
  from p 3 have 6: "\<exists>s' seen'. process_links ex_fetch_env [ex_row1, ex_row2] (ex_two, []) = Inr (s', seen')
         \<and> used_bytes_of s' 7 (ustr ''bob'') = Some 1400" by blast
  show ?thesis
    using 1 2 4 5 6 h
    by (simp add: ex_comma ex_row1_fetch_failed ex_row2_fetch ex_two_in_range(1) ex_two_bob)
qed

subsection \<open>Consecutive passes\<close>

lemma loop_cycles_Nil: "loop_cycles [] s = s"
  by (simp add: loop_cycles_def)

lemma loop_cycles_Cons: "loop_cycles (e # es) s = loop_cycles es (loop_cycle e s)"
  by (simp add: loop_cycles_def)

lemma map_option_add:
  fixes v :: "int option"
  shows "map_option (\<lambda>x. x + b) (map_option (\<lambda>x. x + a) v) = map_option (\<lambda>x. x + (a + b)) v"
  by (cases v) simp_all

text \<open>
  Over passes that stay in range, a user's \<open>used_bytes\<close> and an agent's
  \<open>total_used_bytes\<close> grow by the credits of all their links in all the passes.
\<close>

lemma loop_cycles_used_bytes:
  assumes "in_range_run es s"
  shows "used_bytes_of (loop_cycles es s) owner_id uname =
           map_option (\<lambda>x. x + run_credit es s owner_id uname) (used_bytes_of s owner_id uname)"
  using assms
proof (induction es arbitrary: s)
  case Nil
  then show ?case by (simp add: loop_cycles_Nil option.map_ident)
next
  case (Cons e es)
  from Cons.prems have r: "in_range e (fetch_all_links s) s"
    and rr: "in_range_run es (loop_cycle e s)" by simp_all
  show ?case
    unfolding loop_cycles_Cons Cons.IH[OF rr] loop_cycle_used_bytes[OF r]
    by (simp add: map_option_add)
qed

lemma loop_cycles_total_used:
  assumes "in_range_run es s"
  shows "total_used_of (loop_cycles es s) owner_id =
           map_option (\<lambda>x. x + run_owner_credit es s owner_id) (total_used_of s owner_id)"
  using assms
proof (induction es arbitrary: s)
  case Nil
  then show ?case by (simp add: loop_cycles_Nil option.map_ident)
next
  case (Cons e es)
  from Cons.prems have r: "in_range e (fetch_all_links s) s"
    and rr: "in_range_run es (loop_cycle e s)" by simp_all
  show ?case
    unfolding loop_cycles_Cons Cons.IH[OF rr] loop_cycle_total_used[OF r]
    by (simp add: map_option_add)
qed

lemma sum_deltas: "sum_list (deltas b rs) = last (b # rs) - b"
  by (induction rs arbitrary: b) simp_all

text \<open>
  A user whose only link reports values that never go down: over passes in range the
  credits of the run are the per-cycle deltas of the reports, and the link ends with the
  last report as its baseline.
\<close>

lemma loop_cycles_single_link:
  assumes "list_all2 (\<lambda>e v. fetch_row e row = Some v) es vs"
    and "sorted (b # vs)"
    and "in_range_run es s"
    and "distinct (map l_id (local_user_panel_links s))"
    and "filter (\<lambda>r. r_owner_id r = owner_id \<and> r_local_username r = uname) (fetch_all_links s)
           = [row\<lparr>r_last_used_traffic := b\<rparr>]"
  shows "run_credit es s owner_id uname = sum_list (deltas b vs)
       \<and> filter (\<lambda>r. r_owner_id r = owner_id \<and> r_local_username r = uname)
            (fetch_all_links (loop_cycles es s))
           = [row\<lparr>r_last_used_traffic := last (b # vs)\<rparr>]"
  using assms
proof (induction es vs arbitrary: s b rule: list_all2_induct)
  case Nil
  then show ?case by (simp add: loop_cycles_Nil)
next
  case (Cons e es v vs)
  let ?P = "\<lambda>r. r_owner_id r = owner_id \<and> r_local_username r = uname"
  let ?rb = "row\<lparr>r_last_used_traffic := b\<rparr>"
  let ?s1 = "loop_cycle e s"
  from Cons.prems(1) have bv: "b \<le> v" and srt: "sorted (v # vs)" by simp_all
  from Cons.prems(2) have r: "in_range e (fetch_all_links s) s"
    and rr: "in_range_run es ?s1" by simp_all
  have fr: "fetch_row e ?rb = Some v" using Cons.hyps(1) by (simp add: fetch_row_def)
  have d: "row_delta e ?rb = v - b" using bv by (simp add: row_delta_def fr)
  have bl: "row_baseline e ?rb = v" by (simp add: row_baseline_def fr)
  have uc: "user_credit e (fetch_all_links s) owner_id uname = v - b"
    by (simp add: user_credit_def Cons.prems(4) d)
  have ids: "distinct (map l_id (local_user_panel_links ?s1))"
    by (simp only: loop_cycle_link_ids[OF r] Cons.prems(3))
  have "filter ?P (fetch_all_links ?s1)
          = map (\<lambda>r. r\<lparr>r_last_used_traffic := row_baseline e r\<rparr>) (filter ?P (fetch_all_links s))"
    unfolding loop_cycle_rows[OF r Cons.prems(3)] filter_map by (simp add: comp_def)
  then have f1: "filter ?P (fetch_all_links ?s1) = [row\<lparr>r_last_used_traffic := v\<rparr>]"
    by (simp add: Cons.prems(4) bl)
  from Cons.IH[OF srt rr ids f1]
  show ?case
    unfolding loop_cycles_Cons by (simp add: uc)
qed

text \<open>
  C3. The counters are signed 64-bit columns, and the cap that \<open>add_usage\<close> writes in its
  statements, \<open>2^64 - 1\<close>, is above what they hold. In the sample state bob has used 1100
  bytes; his first link has the baseline 50 and its panel reports \<open>2^63 - 1\<close>, his second
  link has the baseline 800 and its panel reports 1100. The value that the cap leaves
  does not fit \<open>used_bytes\<close>: \<open>add_usage\<close> raises, the body of the loop and the pass end
  there, nothing is credited, no baseline moves, the second link is not visited, and the
  next passes end in the same way.
\<close>

theorem usage_overflow_aborts_pass:
  "fetch_all_links ex_two = [ex_row1, ex_row2]
   \<and> used_bytes_of ex_two 7 (ustr ''bob'') = Some 1100
   \<and> fetch_row ex_huge_env ex_row1 = Some 9223372036854775807
   \<and> r_last_used_traffic ex_row1 = 50
   \<and> fetch_row ex_huge_env ex_row2 = Some 1100
   \<and> r_last_used_traffic ex_row2 = 800
   \<and> BIGINT_MAX < min (1100 + (9223372036854775807 - 50)) MAX_COUNTER
   \<and> add_usage 7 (ustr ''bob'') (9223372036854775807 - 50) ex_two = Inl OutOfRange
   \<and> process_row ex_huge_env ex_row1 (ex_two, []) = Inl OutOfRange
   \<and> process_links ex_huge_env (fetch_all_links ex_two) (ex_two, []) = Inl (OutOfRange, ex_two)
   \<and> loop_cycle ex_huge_env ex_two = ex_two
   \<and> loop_cycles [ex_huge_env, ex_huge_env, ex_huge_env] ex_two = ex_two"
proof -
  have a: "add_usage 7 (ustr ''bob'') (9223372036854775807 - 50) ex_two = Inl OutOfRange"
    by (rule add_usage_overflow[OF _ ex_two_bob(1)])
       (simp_all add: ex_two_tables BIGINT_MAX_def)
  have p: "process_row ex_huge_env ex_row1 (ex_two, []) = Inl OutOfRange"
    using process_row_higher[OF ex_row1_huge, of ex_two "[]"] a
    by (simp add: ex_rows_fields)
  have l: "process_links ex_huge_env [ex_row1, ex_row2] (ex_two, []) = Inl (OutOfRange, ex_two)"
    by (simp add: p)
  have l': "process_links ex_huge_env (fetch_all_links ex_two) (ex_two, [])
             = Inl (OutOfRange, ex_two)"
    unfolding ex_two_rows by (rule l)
  have c: "loop_cycle ex_huge_env ex_two = ex_two"
    unfolding loop_cycle_def l' by simp
  have cs: "loop_cycles [ex_huge_env, ex_huge_env, ex_huge_env] ex_two = ex_two"
    by (simp add: loop_cycles_def c)
  have m: "BIGINT_MAX < min (1100 + (9223372036854775807 - 50)) MAX_COUNTER"
    by (simp add: BIGINT_MAX_def MAX_COUNTER_def)
  show ?thesis
    by (intro conjI ex_two_rows ex_two_bob(2) ex_row1_huge ex_row2_huge ex_rows_fields(5,6)
        m a p l' c cs)
qed

subsection \<open>The final merge filter\<close>

lemma set_first_seen: "set (first_seen xs) = set xs"
  by (induction xs) auto

lemma distinct_first_seen: "distinct (first_seen xs)"
  by (induction xs) simp_all

lemma first_seen_distinct: "distinct xs \<Longrightarrow> first_seen xs = xs"
proof (induction xs)
  case Nil
  then show ?case by simp
next
  case (Cons x xs)
  then have "filter (\<lambda>y. y \<noteq> x) xs = xs"
    by (auto simp: filter_id_conv)
  with Cons show ?case by simp
qed

lemma subseq_first_seen: "subseq (first_seen xs) xs"
proof (induction xs)
  case Nil
  then show ?case by simp
next
  case (Cons x xs)
  have "subseq (filter (\<lambda>y. y \<noteq> x) (first_seen xs)) (first_seen xs)"
    by simp
  from subseq_order.trans[OF this Cons.IH] show ?case by simp
qed

lemma filter_dedupe_loop_eq:
  "filter_dedupe_loop links out seen =
     out @ filter (\<lambda>y. y \<notin> seen) (first_seen (filter allowed_scheme (map strip_quotes links)))"
proof (induction links arbitrary: out seen)
  case Nil
  then show ?case by simp
next
  case (Cons s links)
  let ?ss = "strip_quotes s"
  let ?rest = "first_seen (filter allowed_scheme (map strip_quotes links))"
  show ?case
  proof (cases "allowed_scheme ?ss")
    case False
    then show ?thesis
      using Cons.IH[of out seen] by (simp add: allowed_scheme_def Let_def)
  next
    case True
    show ?thesis
    proof (cases "?ss \<in> seen")
      case False
      have "filter_dedupe_loop (s # links) out seen =
              filter_dedupe_loop links (out @ [?ss]) (insert ?ss seen)"
        using True False by (simp add: allowed_scheme_def Let_def)
      also have "\<dots> = (out @ [?ss]) @ filter (\<lambda>y. y \<notin> insert ?ss seen) ?rest"
        by (rule Cons.IH)
      also have "filter (\<lambda>y. y \<notin> insert ?ss seen) ?rest
                   = filter (\<lambda>y. y \<notin> seen) (filter (\<lambda>y. y \<noteq> ?ss) ?rest)"
        by (simp add: conj_commute)
      finally show ?thesis using True False by simp
    next
      case in_seen: True
      have "filter_dedupe_loop (s # links) out seen = filter_dedupe_loop links out seen"
        using True in_seen by (simp add: allowed_scheme_def Let_def)
      also have "\<dots> = out @ filter (\<lambda>y. y \<notin> seen) ?rest"
        by (rule Cons.IH)
      also have "filter (\<lambda>y. y \<notin> seen) ?rest
                   = filter (\<lambda>y. y \<notin> seen) (filter (\<lambda>y. y \<noteq> ?ss) ?rest)"
        using in_seen by (auto intro: filter_cong)
      finally show ?thesis using True in_seen by simp
    qed
  qed
qed

lemma filter_dedupe_eq:
  "filter_dedupe links = first_seen (filter allowed_scheme (map strip_quotes links))"
  by (simp add: filter_dedupe_def filter_dedupe_loop_eq)

text \<open>
  C9. \<open>filter_dedupe\<close> returns the trimmed entries whose lower-cased text starts with one
  of the four allowed schemes, each once, in the order in which they are first seen in the
  input: the result has no duplicates, is a subsequence of the trimmed input, and every
  allowed trimmed entry of the input is in it. For three distinct allowed entries
  \<open>A\<close>, \<open>B\<close>, \<open>C\<close> that the trimming leaves alone, \<open>[A, B, A, C]\<close> gives \<open>[A, B, C]\<close>.
\<close>

theorem filter_dedupe_first_seen:
  "filter_dedupe links = first_seen (filter allowed_scheme (map strip_quotes links))
   \<and> (\<forall>y \<in> set (filter_dedupe links). startswith (lower y) ALLOWED_SCHEMES)
   \<and> distinct (filter_dedupe links)
   \<and> subseq (filter_dedupe links) (map strip_quotes links)
   \<and> set (filter_dedupe links) = {y \<in> strip_quotes ` set links. allowed_scheme y}
   \<and> (distinct [A, B, C] \<and> list_all allowed_scheme [A, B, C]
        \<and> list_all (\<lambda>x. strip_quotes x = x) [A, B, C] \<longrightarrow>
        filter_dedupe [A, B, A, C] = [A, B, C])"
proof (intro conjI impI)
  show eq: "filter_dedupe links = first_seen (filter allowed_scheme (map strip_quotes links))"
    by (rule filter_dedupe_eq)
  show "\<forall>y \<in> set (filter_dedupe links). startswith (lower y) ALLOWED_SCHEMES"
    unfolding eq set_first_seen by (simp add: allowed_scheme_def)
  show "distinct (filter_dedupe links)"
    unfolding eq by (rule distinct_first_seen)
  have "subseq (first_seen (filter allowed_scheme (map strip_quotes links)))
          (filter allowed_scheme (map strip_quotes links))"
    by (rule subseq_first_seen)
  moreover have "subseq (filter allowed_scheme (map strip_quotes links)) (map strip_quotes links)"
    by simp
  ultimately show "subseq (filter_dedupe links) (map strip_quotes links)"
    unfolding eq by (rule subseq_order.trans)
  show "set (filter_dedupe links) = {y \<in> strip_quotes ` set links. allowed_scheme y}"
    unfolding eq set_first_seen by auto
next
  assume a: "distinct [A, B, C] \<and> list_all allowed_scheme [A, B, C]
        \<and> list_all (\<lambda>x. strip_quotes x = x) [A, B, C]"
  then show "filter_dedupe [A, B, A, C] = [A, B, C]"
    by (auto simp: filter_dedupe_eq)
qed

theorem filter_dedupe_first_seen_witness:
  "distinct [ustr ''vless://a'', ustr ''VMESS://b'', ustr ''ss://c'']
   \<and> list_all allowed_scheme [ustr ''vless://a'', ustr ''VMESS://b'', ustr ''ss://c'']
   \<and> filter_dedupe [ustr ''vless://a'', ustr ''VMESS://b'', ustr ''vless://a'', ustr ''ss://c'']
       = [ustr ''vless://a'', ustr ''VMESS://b'', ustr ''ss://c'']
   \<and> filter_dedupe [ustr ''http://x'', ustr '' vless://a  '', ustr ''vless://a'']
       = [ustr ''vless://a'']"
proof -
  have sq: "strip_quotes (ustr ''vless://a'') = ustr ''vless://a''"
    "strip_quotes (ustr ''VMESS://b'') = ustr ''VMESS://b''"
    "strip_quotes (ustr ''ss://c'') = ustr ''ss://c''"
    "strip_quotes (ustr ''http://x'') = ustr ''http://x''"
    "strip_quotes (ustr '' vless://a  '') = ustr ''vless://a''"
    by (simp_all add: strip_quotes_def strip_def strip_chars_def is_space_def ustr_def)
  have al: "allowed_scheme (ustr ''vless://a'')" "allowed_scheme (ustr ''VMESS://b'')"
    "allowed_scheme (ustr ''ss://c'')" "\<not> allowed_scheme (ustr ''http://x'')"
    by (simp_all add: allowed_scheme_def startswith_def lower_def ALLOWED_SCHEMES_def ustr_def)
  have d: "distinct [ustr ''vless://a'', ustr ''VMESS://b'', ustr ''ss://c'']"
    by (simp add: ustr_def)
  note t = filter_dedupe_first_seen[of
      "[ustr ''http://x'', ustr '' vless://a  '', ustr ''vless://a'']"
      "ustr ''vless://a''" "ustr ''VMESS://b''" "ustr ''ss://c''"]
  from t have "filter_dedupe [ustr ''http://x'', ustr '' vless://a  '', ustr ''vless://a'']
      = first_seen (filter allowed_scheme
          (map strip_quotes [ustr ''http://x'', ustr '' vless://a  '', ustr ''vless://a'']))"
    by blast
  then have e1: "filter_dedupe [ustr ''http://x'', ustr '' vless://a  '', ustr ''vless://a'']
      = [ustr ''vless://a'']"
    by (simp add: sq al)
  from t have "distinct [ustr ''vless://a'', ustr ''VMESS://b'', ustr ''ss://c'']
      \<and> list_all allowed_scheme [ustr ''vless://a'', ustr ''VMESS://b'', ustr ''ss://c'']
      \<and> list_all (\<lambda>x. strip_quotes x = x)
            [ustr ''vless://a'', ustr ''VMESS://b'', ustr ''ss://c''] \<longrightarrow>
      filter_dedupe [ustr ''vless://a'', ustr ''VMESS://b'', ustr ''vless://a'', ustr ''ss://c'']
       = [ustr ''vless://a'', ustr ''VMESS://b'', ustr ''ss://c'']"
    by blast
  moreover have "list_all allowed_scheme [ustr ''vless://a'', ustr ''VMESS://b'', ustr ''ss://c'']"
    "list_all (\<lambda>x. strip_quotes x = x) [ustr ''vless://a'', ustr ''VMESS://b'', ustr ''ss://c'']"
    by (simp_all add: al sq)
  ultimately have e2:
    "filter_dedupe [ustr ''vless://a'', ustr ''VMESS://b'', ustr ''vless://a'', ustr ''ss://c'']
       = [ustr ''vless://a'', ustr ''VMESS://b'', ustr ''ss://c'']"
    using d by blast
  from d e1 e2 \<open>list_all allowed_scheme [ustr ''vless://a'', ustr ''VMESS://b'', ustr ''ss://c'']\<close>
  show ?thesis by blast
qed

lemma totals_nonneg_credited:
  "totals_nonneg ags \<Longrightarrow> totals_nonneg (agents_credited amount owner_real ags)"
  by (induction ags) (simp_all add: totals_nonneg_def agents_credited_def)

lemma agents_credited_zero:
  "totals_nonneg ags \<Longrightarrow> agents_credited 0 owner_real ags = ags"
  by (induction ags) (simp_all add: totals_nonneg_def agents_credited_def)

lemma credited_owner_nonneg:
  "list_all (\<lambda>a. ag_telegram_user_id a = owner_real \<longrightarrow> 0 \<le> ag_total_used_bytes a)
     (agents_credited amount owner_real ags)"
  by (induction ags) (simp_all add: agents_credited_def)

lemma agents_credit_removal:
  "agents (credit_removal amount owner_real s) = agents_credited amount owner_real (agents s)"
  by (simp add: credit_removal_def agents_credited_def)

lemma reset_loop_tables:
  "tables (foldl (\<lambda>s row. snd (remote_loop e k (a row) (u row) (t row) (rs row) True s)) s rows)
     = tables s"
proof (induction rows arbitrary: s)
  case Nil
  then show ?case by simp
next
  case (Cons row rows)
  have "tables (snd (remote_loop e k (a row) (u row) (t row) (rs row) True s)) = tables s"
    using remote_loop_frame by blast
  with Cons.IH show ?case by simp
qed

lemma agents_reset_used:
  assumes "get_local_user_app e s owner_id username = Some row"
  shows "agents (reset_used e owner_id username s) =
           (if lu_used_bytes row > 0
            then agents_credited (lu_used_bytes row) (lu_owner_id row) (agents s)
            else agents s)"
proof -
  let ?ids = "expand_owner_ids e owner_id"
  let ?s1 = "s\<lparr>local_users :=
                   map (\<lambda>u. if lu_owner_id u \<in> set ?ids \<and> lu_username u = username
                             then u\<lparr>lu_used_bytes := 0\<rparr> else u)
                       (local_users s)\<rparr>"
  let ?s2 = "if lu_used_bytes row > 0
             then credit_removal (lu_used_bytes row) (lu_owner_id row) ?s1 else ?s1"
  let ?loop = "\<lambda>s rows. foldl
           (\<lambda>s row.
              snd (remote_loop e ResetUsage (get_api (r_panel_type row)) (r_panel_url row)
                     (r_access_token row)
                     (if r_panel_type row = ustr ''sanaei''
                      then split_on comma (r_remote_username row)
                      else [r_remote_username row])
                     True s)) s rows"
  have f: "find (\<lambda>u. lu_owner_id u \<in> set ?ids \<and> lu_username u = username) (local_users s)
             = Some row"
    using assms by (simp add: get_local_user_app_def)
  have r: "reset_used e owner_id username s = ?loop ?s2 (list_user_links e ?s2 owner_id username)"
    by (simp add: reset_used_def Let_def f)
  have "tables (?loop ?s2 (list_user_links e ?s2 owner_id username)) = tables ?s2"
    by (rule reset_loop_tables)
  then have "agents (reset_used e owner_id username s) = agents ?s2"
    unfolding r by (rule tables_eqD(2))
  then show ?thesis
    by (simp add: agents_credit_removal)
qed

lemma agents_delete_local_user:
  assumes "get_local_user_app e s owner_id username = Some row"
  shows "agents (delete_local_user e owner_id username s) =
           (if lu_used_bytes row > 0
            then agents_credited (lu_used_bytes row) (lu_owner_id row) (agents s)
            else agents s)"
proof -
  have f: "find (\<lambda>u. lu_owner_id u \<in> set (expand_owner_ids e owner_id)
                     \<and> lu_username u = username) (local_users s) = Some row"
    using assms by (simp add: get_local_user_app_def)
  show ?thesis
    by (simp add: delete_local_user_def Let_def f agents_credit_removal)
qed

text \<open>
  C7. The UPDATE issued by the usage reset and by the deletion of a local user replaces
  the \<open>total_used_bytes\<close> of the owner's agent by \<open>max (total_used_bytes - amount) 0\<close>,
  which is never negative. With the user's recorded \<open>used_bytes\<close> and every aggregate
  non-negative to begin with, both operations leave the agents table as that credit of
  the user's previous \<open>used_bytes\<close>, and every aggregate non-negative.
\<close>

theorem credit_removal_floored:
  "agents (credit_removal amount owner_real s) = agents_credited amount owner_real (agents s)
   \<and> list_all (\<lambda>a. ag_telegram_user_id a = owner_real \<longrightarrow> 0 \<le> ag_total_used_bytes a)
        (agents (credit_removal amount owner_real s))
   \<and> (get_local_user_app e s owner_id username = Some row \<and> 0 \<le> lu_used_bytes row
        \<and> totals_nonneg (agents s) \<longrightarrow>
        agents (reset_used e owner_id username s)
          = agents_credited (lu_used_bytes row) (lu_owner_id row) (agents s)
        \<and> totals_nonneg (agents (reset_used e owner_id username s))
        \<and> agents (delete_local_user e owner_id username s)
          = agents_credited (lu_used_bytes row) (lu_owner_id row) (agents s)
        \<and> totals_nonneg (agents (delete_local_user e owner_id username s)))"
proof (intro conjI impI)
  show "agents (credit_removal amount owner_real s)
          = agents_credited amount owner_real (agents s)"
    by (rule agents_credit_removal)
  show "list_all (\<lambda>a. ag_telegram_user_id a = owner_real \<longrightarrow> 0 \<le> ag_total_used_bytes a)
        (agents (credit_removal amount owner_real s))"
    unfolding agents_credit_removal by (rule credited_owner_nonneg)
next
  assume a: "get_local_user_app e s owner_id username = Some row \<and> 0 \<le> lu_used_bytes row
        \<and> totals_nonneg (agents s)"
  then have g: "get_local_user_app e s owner_id username = Some row"
    and nn: "totals_nonneg (agents s)" and u: "0 \<le> lu_used_bytes row" by simp_all
  have z: "\<not> lu_used_bytes row > 0 \<Longrightarrow>
             agents_credited (lu_used_bytes row) (lu_owner_id row) (agents s) = agents s"
    using u agents_credited_zero[OF nn] by simp
  show r: "agents (reset_used e owner_id username s)
          = agents_credited (lu_used_bytes row) (lu_owner_id row) (agents s)"
    using z by (simp add: agents_reset_used[OF g])
  show d: "agents (delete_local_user e owner_id username s)
          = agents_credited (lu_used_bytes row) (lu_owner_id row) (agents s)"
    using z by (simp add: agents_delete_local_user[OF g])
  show "totals_nonneg (agents (reset_used e owner_id username s))"
    unfolding r by (rule totals_nonneg_credited[OF nn])
  show "totals_nonneg (agents (delete_local_user e owner_id username s))"
    unfolding d by (rule totals_nonneg_credited[OF nn])
qed

theorem credit_removal_floored_witness:
  "get_local_user_app ex_fail_env ex_inactive 7 (ustr ''bob'') = Some ex_bob
   \<and> lu_used_bytes ex_bob = 1100
   \<and> map ag_total_used_bytes (agents ex_inactive) = [500]
   \<and> map ag_total_used_bytes (agents (reset_used ex_fail_env 7 (ustr ''bob'') ex_inactive)) = [0]
   \<and> map ag_total_used_bytes (agents (delete_local_user ex_fail_env 7 (ustr ''bob'') ex_inactive))
       = [0]"
proof -
  have g: "get_local_user_app ex_fail_env ex_inactive 7 (ustr ''bob'') = Some ex_bob"
    by (simp add: get_local_user_app_def expand_owner_ids_def ex_fail_env_def ex_inactive_def
        ex_state_def ex_bob_def)
  have b: "lu_used_bytes ex_bob = 1100" "lu_owner_id ex_bob = 7" by (simp_all add: ex_bob_def)
  have n: "totals_nonneg (agents ex_inactive)"
    by (simp add: totals_nonneg_def ex_inactive_def)
  have c: "map ag_total_used_bytes (agents_credited 1100 7 (agents ex_inactive)) = [0]"
    "map ag_total_used_bytes (agents ex_inactive) = [500]"
    by (simp_all add: agents_credited_def ex_inactive_def)
  note t = credit_removal_floored[of 0 0 ex_inactive ex_fail_env 7 "ustr ''bob''" ex_bob]
  from t g b n have "agents (reset_used ex_fail_env 7 (ustr ''bob'') ex_inactive)
                       = agents_credited 1100 7 (agents ex_inactive)"
    "agents (delete_local_user ex_fail_env 7 (ustr ''bob'') ex_inactive)
                       = agents_credited 1100 7 (agents ex_inactive)"
    by simp_all
  with g b c show ?thesis by simp
qed

subsection \<open>The agent gate of the subscription route\<close>

lemma disable_remote_app_frame:
  "tables (snd (disable_remote_app e pt url tok ru s)) = tables s
   \<and> attempts (snd (disable_remote_app e pt url tok ru s))
       = attempts s @ [Attempt Disable pt url tok ru]
   \<and> prefix (calls s) (calls (snd (disable_remote_app e pt url tok ru s)))"
proof -
  let ?s0 = "s\<lparr>attempts := attempts s @ [Attempt Disable pt url tok ru]\<rparr>"
  have s0: "tables ?s0 = tables s" "attempts ?s0 = attempts s @ [Attempt Disable pt url tok ru]"
    "calls ?s0 = calls s"
    by (simp_all add: tables_def)
  show ?thesis
  proof (cases "pt = ustr ''sanaei''")
    case True
    let ?rs = "filter (\<lambda>r. r \<noteq> []) (map strip (split_on comma ru))"
    have eq: "snd (disable_remote_app e pt url tok ru s)
                = snd (remote_loop e Disable Sanaei url tok ?rs True ?s0)"
      using True by (simp add: disable_remote_app_def Let_def split: prod.splits)
    from remote_loop_frame[of e Disable Sanaei url tok ?rs True ?s0] s0 show ?thesis
      unfolding eq by simp
  next
    case False
    let ?c1 = "ApiCall Disable Marzneshin url tok ru"
    let ?c2 = "ApiCall Disable Marzban url tok ru"
    let ?s1 = "?s0\<lparr>calls := calls ?s0 @ [?c1]\<rparr>"
    let ?s2 = "?s1\<lparr>calls := calls ?s1 @ [?c2]\<rparr>"
    have s1: "tables ?s1 = tables s" "attempts ?s1 = attempts s @ [Attempt Disable pt url tok ru]"
      "prefix (calls s) (calls ?s1)"
      by (simp_all add: tables_def)
    have s2: "tables ?s2 = tables s" "attempts ?s2 = attempts s @ [Attempt Disable pt url tok ru]"
      "prefix (calls s) (calls ?s2)"
      by (simp_all add: tables_def)
    have "snd (disable_remote_app e pt url tok ru s) = ?s1
          \<or> snd (disable_remote_app e pt url tok ru s) = ?s2"
      using False by (simp add: disable_remote_app_def Let_def split: option.splits)
    then show ?thesis
    proof
      assume a: "snd (disable_remote_app e pt url tok ru s) = ?s1"
      show ?thesis unfolding a using s1 by blast
    next
      assume a: "snd (disable_remote_app e pt url tok ru s) = ?s2"
      show ?thesis unfolding a using s2 by blast
    qed
  qed
qed

lemma disable_links_app_frame:
  "tables (disable_links_app e ls s) = tables s
   \<and> attempts (disable_links_app e ls s) = attempts s @ map (link_attempt Disable) ls
   \<and> prefix (calls s) (calls (disable_links_app e ls s))"
proof (induction ls arbitrary: s)
  case Nil
  then show ?case by (simp add: disable_links_app_def)
next
  case (Cons l ls)
  let ?s1 = "snd (disable_remote_app e (r_panel_type l) (r_panel_url l) (r_access_token l)
                    (r_remote_username l) s)"
  have step: "disable_links_app e (l # ls) s = disable_links_app e ls ?s1"
    by (simp add: disable_links_app_def)
  have f1: "tables ?s1 = tables s" "attempts ?s1 = attempts s @ [link_attempt Disable l]"
    "prefix (calls s) (calls ?s1)"
    unfolding link_attempt_def using disable_remote_app_frame by blast+
  from Cons.IH[of ?s1] f1 show ?case
    unfolding step by (auto intro: prefix_order.trans)
qed

lemma mark_agent_disabled_app_flags:
  "list_all (\<lambda>a. ag_telegram_user_id a \<in> set (expand_owner_ids e owner_id)
                   \<longrightarrow> ag_disabled_pushed a = 1)
     (agents (mark_agent_disabled_app e owner_id s))"
proof -
  have "list_all (\<lambda>a. ag_telegram_user_id a \<in> S \<longrightarrow> ag_disabled_pushed a = 1)
          (map (\<lambda>a. if ag_telegram_user_id a \<in> S
                    then a\<lparr>ag_disabled_pushed := 1, ag_disabled_pushed_at := Some t\<rparr>
                    else a) ags)" for S t ags
    by (induction ags) simp_all
  then show ?thesis by (simp add: mark_agent_disabled_app_def)
qed

lemma mark_agent_disabled_app_logs:
  "attempts (mark_agent_disabled_app e owner_id s) = attempts s"
  "calls (mark_agent_disabled_app e owner_id s) = calls s"
  by (simp_all add: mark_agent_disabled_app_def)

lemma get_agent_total_used_eq:
  assumes "get_agent_app e s owner_id = Some ag"
  shows "get_agent_total_used e s owner_id = ag_total_used_bytes ag"
  using assms by (simp add: get_agent_total_used_def get_agent_app_def)

lemma agent_gate_exhausted:
  assumes "get_agent_app e s owner_id = Some ag" "agent_exhausted e ag"
  shows "agent_gate e owner_id s =
           (True, if ag_disabled_pushed ag = 0
                  then mark_agent_disabled_app e owner_id
                         (disable_links_app e (list_all_agent_links e s owner_id) s)
                  else s)"
  using assms
  by (auto simp: agent_gate_def agent_exhausted_def Let_def get_agent_total_used_eq[OF assms(1)]
      split: option.splits)

lemma unified_links_html:
  assumes "get_owner_id s uname key = Some owner_id" "owner_id \<noteq> 0"
    "get_local_user_app e s owner_id uname = Some lu"
  shows "fst (unified_links e uname key True s) = HtmlPage (Some lu)"
proof -
  obtain b s1 where g: "agent_gate e owner_id s = (b, s1)"
    by (cases "agent_gate e owner_id s")
  show ?thesis
    using assms g by (simp add: unified_links_def Let_def)
qed

lemma unified_links_after_gate:
  assumes "get_owner_id s uname key = Some owner_id" "owner_id \<noteq> 0"
    "get_local_user_app e s owner_id uname = Some lu"
  shows "agents (snd (unified_links e uname key h s)) = agents (snd (agent_gate e owner_id s))
       \<and> prefix (attempts (snd (agent_gate e owner_id s)))
                 (attempts (snd (unified_links e uname key h s)))"
proof -
  obtain b s1 where g: "agent_gate e owner_id s = (b, s1)"
    by (cases "agent_gate e owner_id s")
  let ?links0 = "list_mapped_links e s1 owner_id uname"
  let ?links = "if ?links0 = [] then map (panel_mapping owner_id uname)
                                       (list_all_panels e s1 owner_id) else ?links0"
  let ?s2 = "mark_user_disabled_app e owner_id uname (disable_links_app e ?links s1)"
  have c: "snd (unified_links e uname key h s) = s1 \<or> snd (unified_links e uname key h s) = ?s2"
    using assms g by (simp add: unified_links_def Let_def)
  have t: "tables (disable_links_app e ?links s1) = tables s1"
    and p: "attempts (disable_links_app e ?links s1)
              = attempts s1 @ map (link_attempt Disable) ?links"
    using disable_links_app_frame[of e ?links s1] by blast+
  have a2: "agents ?s2 = agents s1"
    using tables_eqD(2)[OF t] by (simp add: mark_user_disabled_app_def)
  have p2: "prefix (attempts s1) (attempts ?s2)"
    using p by (simp add: mark_user_disabled_app_def)
  from c show ?thesis
  proof
    assume "snd (unified_links e uname key h s) = s1"
    then show ?thesis by (simp add: g)
  next
    assume "snd (unified_links e uname key h s) = ?s2"
    then show ?thesis using a2 p2 by (simp add: g)
  qed
qed

text \<open>
  C4, as the route has it. For a request that does not ask for HTML, from a user whose
  owner has an active agent row that is over quota or expired, the answer is the empty
  \<open>text/plain\<close> body, whatever the panels answer (the environment is arbitrary), and the
  state is the one the agent gate leaves. If the agent's flag was 0 the gate makes one
  disable attempt per agent link, in order, and then every agent row of the owner has
  the flag 1; this is so for every request, with or without HTML: the attempts of the
  gate come first among those of the request and the flags are set when it returns. If
  the flag was set the gate changes nothing.
\<close>

theorem agent_gate_blocks_plain_requests:
  assumes "get_owner_id s uname key = Some owner_id" and "owner_id \<noteq> 0"
    and "get_local_user_app e s owner_id uname = Some lu"
    and "get_agent_app e s owner_id = Some ag"
    and "agent_exhausted e ag"
  shows "unified_links e uname key False s = (TextPlain [] None, snd (agent_gate e owner_id s))
       \<and> fst (agent_gate e owner_id s) = True
       \<and> (ag_disabled_pushed ag = 0 \<longrightarrow>
            attempts (snd (agent_gate e owner_id s))
              = attempts s @ map (link_attempt Disable) (list_all_agent_links e s owner_id)
            \<and> list_all (\<lambda>a. ag_telegram_user_id a \<in> set (expand_owner_ids e owner_id)
                             \<longrightarrow> ag_disabled_pushed a = 1)
                (agents (snd (agent_gate e owner_id s)))
            \<and> prefix (attempts s @ map (link_attempt Disable) (list_all_agent_links e s owner_id))
                      (attempts (snd (unified_links e uname key want_html s)))
            \<and> list_all (\<lambda>a. ag_telegram_user_id a \<in> set (expand_owner_ids e owner_id)
                             \<longrightarrow> ag_disabled_pushed a = 1)
                (agents (snd (unified_links e uname key want_html s))))
       \<and> (ag_disabled_pushed ag \<noteq> 0 \<longrightarrow> snd (agent_gate e owner_id s) = s)"
proof -
  let ?ls = "list_all_agent_links e s owner_id"
  let ?s1 = "disable_links_app e ?ls s"
  note g = agent_gate_exhausted[OF assms(4,5)]
  note ag = unified_links_after_gate[OF assms(1,2,3), of want_html]
  have u: "unified_links e uname key False s = (TextPlain [] None, snd (agent_gate e owner_id s))"
    using assms(1,2,3) by (simp add: unified_links_def g)
  have a: "ag_disabled_pushed ag = 0 \<Longrightarrow>
             attempts (snd (agent_gate e owner_id s)) = attempts s @ map (link_attempt Disable) ?ls"
    using disable_links_app_frame[of e ?ls s] by (simp add: g mark_agent_disabled_app_logs)
  have f: "ag_disabled_pushed ag = 0 \<Longrightarrow>
             list_all (\<lambda>a. ag_telegram_user_id a \<in> set (expand_owner_ids e owner_id)
                             \<longrightarrow> ag_disabled_pushed a = 1)
                (agents (snd (agent_gate e owner_id s)))"
    by (simp add: g mark_agent_disabled_app_flags)
  have a': "ag_disabled_pushed ag = 0 \<Longrightarrow>
             prefix (attempts s @ map (link_attempt Disable) ?ls)
                    (attempts (snd (unified_links e uname key want_html s)))"
    using a ag by simp
  have f': "ag_disabled_pushed ag = 0 \<Longrightarrow>
             list_all (\<lambda>a. ag_telegram_user_id a \<in> set (expand_owner_ids e owner_id)
                             \<longrightarrow> ag_disabled_pushed a = 1)
                (agents (snd (unified_links e uname key want_html s)))"
    using f ag by simp
  have n: "ag_disabled_pushed ag \<noteq> 0 \<Longrightarrow> snd (agent_gate e owner_id s) = s"
    by (simp add: g)
  have t: "fst (agent_gate e owner_id s) = True" by (simp add: g)
  from u t a f a' f' n show ?thesis by blast
qed

lemma ex_blocked_facts:
  "get_owner_id ex_blocked (ustr ''amy'') (ustr ''key'') = Some 7"
  "get_local_user_app ex_fail_env ex_blocked 7 (ustr ''amy'') = Some ex_amy"
  "get_agent_app ex_fail_env ex_blocked 7 = Some ex_over"
  "agent_exhausted ex_fail_env ex_over"
  "ag_disabled_pushed ex_over = 0"
  by (simp_all add: get_owner_id_def get_local_user_app_def get_agent_app_def
      expand_owner_ids_def ex_fail_env_def ex_blocked_def ex_unlimited_def ex_amy_def
      ex_over_def agent_exhausted_def)

lemma ex_blocked_links:
  "list_all_agent_links ex_fail_env ex_blocked 7 = [ex_row (ustr ''marzban'') (ustr ''bob1'')]"
  by (simp add: list_all_agent_links_def join_panels_def expand_owner_ids_def ex_fail_env_def
      ex_blocked_def ex_unlimited_def ex_state_def ex_row_def List.map_filter_simps)

theorem agent_gate_blocks_plain_requests_witness:
  "get_owner_id ex_blocked (ustr ''amy'') (ustr ''key'') = Some 7
   \<and> get_local_user_app ex_fail_env ex_blocked 7 (ustr ''amy'') = Some ex_amy
   \<and> get_agent_app ex_fail_env ex_blocked 7 = Some ex_over
   \<and> agent_exhausted ex_fail_env ex_over
   \<and> ag_disabled_pushed ex_over = 0
   \<and> fst (unified_links ex_fail_env (ustr ''amy'') (ustr ''key'') False ex_blocked)
       = TextPlain [] None
   \<and> attempts (snd (unified_links ex_fail_env (ustr ''amy'') (ustr ''key'') False ex_blocked))
       = [Attempt Disable (ustr ''marzban'') (ustr ''http://p'') (ustr ''tok'') (ustr ''bob1'')]
   \<and> list_all (\<lambda>a. ag_telegram_user_id a = 7 \<longrightarrow> ag_disabled_pushed a = 1)
        (agents (snd (unified_links ex_fail_env (ustr ''amy'') (ustr ''key'') False ex_blocked)))
   \<and> map ag_telegram_user_id
        (agents (snd (unified_links ex_fail_env (ustr ''amy'') (ustr ''key'') False ex_blocked)))
       = [7]"
proof -
  let ?g = "snd (agent_gate ex_fail_env 7 ex_blocked)"
  let ?u = "unified_links ex_fail_env (ustr ''amy'') (ustr ''key'') False ex_blocked"
  have seven: "(7::int) \<noteq> 0" by simp
  note t = agent_gate_blocks_plain_requests[OF ex_blocked_facts(1) seven ex_blocked_facts(2,3,4),
      of False]
  have ids: "expand_owner_ids ex_fail_env 7 = [7]"
    by (simp add: expand_owner_ids_def ex_fail_env_def)
  have at: "attempts ex_blocked = []"
    by (simp add: ex_blocked_def ex_unlimited_def ex_state_def)
  have u: "?u = (TextPlain [] None, ?g)"
    by (rule conjunct1[OF t])
  have r: "attempts ?g = attempts ex_blocked
                @ map (link_attempt Disable) (list_all_agent_links ex_fail_env ex_blocked 7)
           \<and> list_all (\<lambda>a. ag_telegram_user_id a \<in> set (expand_owner_ids ex_fail_env 7)
                             \<longrightarrow> ag_disabled_pushed a = 1) (agents ?g)
           \<and> prefix (attempts ex_blocked
                @ map (link_attempt Disable) (list_all_agent_links ex_fail_env ex_blocked 7))
                (attempts (snd ?u))
           \<and> list_all (\<lambda>a. ag_telegram_user_id a \<in> set (expand_owner_ids ex_fail_env 7)
                             \<longrightarrow> ag_disabled_pushed a = 1) (agents (snd ?u))"
    by (rule mp[OF conjunct1[OF conjunct2[OF conjunct2[OF t]]] ex_blocked_facts(5)])
  have a: "attempts ?g
             = [Attempt Disable (ustr ''marzban'') (ustr ''http://p'') (ustr ''tok'') (ustr ''bob1'')]"
    unfolding conjunct1[OF r] at ex_blocked_links
    by (simp add: link_attempt_def ex_row_def)
  have f: "list_all (\<lambda>a. ag_telegram_user_id a = 7 \<longrightarrow> ag_disabled_pushed a = 1) (agents ?g)"
    using conjunct1[OF conjunct2[OF r]] unfolding ids by simp
  have tb: "agents (disable_links_app ex_fail_env ls ex_blocked) = agents ex_blocked" for ls
    using disable_links_app_frame[of ex_fail_env ls ex_blocked] by (blast dest: tables_eqD(2))
  have ab: "agents ex_blocked = [ex_over]"
    by (simp add: ex_blocked_def)
  have g: "?g = mark_agent_disabled_app ex_fail_env 7
                  (disable_links_app ex_fail_env (list_all_agent_links ex_fail_env ex_blocked 7)
                     ex_blocked)"
    by (simp add: agent_gate_exhausted[OF ex_blocked_facts(3,4)] ex_blocked_facts(5))
  have m: "map ag_telegram_user_id (agents ?g) = [7]"
    unfolding g by (simp add: mark_agent_disabled_app_def tb ab ids ex_over_def)
  show ?thesis
    unfolding u fst_conv snd_conv
    by (intro conjI ex_blocked_facts a f m refl)
qed

text \<open>
  C4 as the claim words it fails in two ways. A request that accepts HTML gets the
  rendered page although the owner's active agent is over quota. And an agent that is
  over quota but inactive is never found by the gate: the plain request is answered
  with the aggregated links.
\<close>

theorem agent_gate_counterexample:
  "get_agent_app ex_fail_env ex_blocked 7 = Some ex_over
   \<and> ag_plan_limit_bytes ex_over = 10 \<and> ag_total_used_bytes ex_over = 500
   \<and> fst (unified_links ex_fail_env (ustr ''amy'') (ustr ''key'') True ex_blocked)
       = HtmlPage (Some ex_amy)
   \<and> agents ex_blocked_inactive = [ex_over\<lparr>ag_active := 0\<rparr>]
   \<and> fst (unified_links ex_links_env (ustr ''amy'') (ustr ''key'') False ex_blocked_inactive)
       = TextPlain (ustr ''vless://x'' @ [10])
           (Some \<lparr>x_plan_limit_bytes = 0, x_used_bytes = 5000, x_remaining_bytes = None,
                  x_disabled_pushed = 0\<rparr>)"
proof -
  have seven: "(7::int) \<noteq> 0" by simp
  have h: "fst (unified_links ex_fail_env (ustr ''amy'') (ustr ''key'') True ex_blocked)
             = HtmlPage (Some ex_amy)"
    by (rule unified_links_html[OF ex_blocked_facts(1) seven ex_blocked_facts(2)])
  have ids: "expand_owner_ids ex_links_env 7 = [7]"
    by (simp add: expand_owner_ids_def ex_links_env_def ex_fail_env_def)
  have o: "get_owner_id ex_blocked_inactive (ustr ''amy'') (ustr ''key'') = Some 7"
    by (simp add: get_owner_id_def ex_blocked_inactive_def ex_unlimited_def)
  have l: "get_local_user_app ex_links_env ex_blocked_inactive 7 (ustr ''amy'') = Some ex_amy"
    by (simp add: get_local_user_app_def ids ex_blocked_inactive_def ex_unlimited_def ex_amy_def)
  have g: "agent_gate ex_links_env 7 ex_blocked_inactive = (False, ex_blocked_inactive)"
    by (simp add: agent_gate_def get_agent_app_def ids ex_blocked_inactive_def ex_unlimited_def
        ex_over_def)
  have m: "list_mapped_links ex_links_env ex_blocked_inactive 7 (ustr ''amy'') = []"
    by (simp add: list_mapped_links_def ids join_panels_def ex_blocked_inactive_def
        ex_unlimited_def ex_state_def List.map_filter_simps ustr_def)
  have c: "collect_links ex_links_env ms u hh = ([ustr ''vless://x''], [])" for ms u hh
    by (simp add: ex_links_env_def)
  have fd: "filter_dedupe [ustr ''vless://x''] = [ustr ''vless://x'']"
    by (simp add: filter_dedupe_eq allowed_scheme_def startswith_def lower_def
        ALLOWED_SCHEMES_def strip_quotes_def strip_def strip_chars_def is_space_def ustr_def)
  have a: "lu_plan_limit_bytes ex_amy = 0" "lu_used_bytes ex_amy = 5000"
    "lu_disabled_pushed ex_amy = 0"
    by (simp_all add: ex_amy_def)
  have p: "fst (unified_links ex_links_env (ustr ''amy'') (ustr ''key'') False ex_blocked_inactive)
       = TextPlain (ustr ''vless://x'' @ [10])
           (Some \<lparr>x_plan_limit_bytes = 0, x_used_bytes = 5000, x_remaining_bytes = None,
                  x_disabled_pushed = 0\<rparr>)"
    by (simp add: unified_links_def o l g m c fd a Let_def)
  show ?thesis
    using h p by (simp add: ex_blocked_facts ex_over_def ex_blocked_inactive_def)
qed

subsection \<open>Canonical names\<close>

lemmas canon_classes = is_space_def is_digit_def is_unit_def is_b_def is_dot_any_def
  is_token_char_def

lemmas canon_patterns = TRAFFIC_def AMOUNT_def OWNER_TAG_def PAREN_TOKEN_def SPACES_def seq_def

lemma ex_nested_1:
  "canonicalize_name p [97, 40, 40, 97, 98, 99, 41, 100, 101, 102, 41]
     = [97, 40, 100, 101, 102, 41]"
proof -
  let ?x = "[97, 40, 40, 97, 98, 99, 41, 100, 101, 102, 41] :: ustr"
  let ?y = "[97, 40, 100, 101, 102, 41] :: ustr"
  have 1: "strip (unquote p ?x) = ?x"
    by (simp add: unquote_def strip_def strip_chars_def is_space_def)
  have 2: "re_sub (TRAFFIC p) [] ?x = ?x"
    by (simp add: canon_patterns canon_classes)
  have 3: "re_sub OWNER_TAG [] ?x = ?x"
    by (simp add: canon_patterns canon_classes)
  have 4: "re_sub PAREN_TOKEN [] ?x = ?y"
    by (simp add: canon_patterns canon_classes)
  have 5: "re_sub SPACES [32] ?y = ?y"
    by (simp add: canon_patterns canon_classes)
  have 6: "take 255 (strip ?y) = ?y"
    by (simp add: strip_def strip_chars_def is_space_def)
  show ?thesis
    unfolding canonicalize_name_def Let_def 1 2 3 4 5 6 ..
qed

lemma ex_nested_2:
  "canonicalize_name p [97, 40, 100, 101, 102, 41] = [97]"
proof -
  let ?x = "[97, 40, 100, 101, 102, 41] :: ustr"
  let ?y = "[97] :: ustr"
  have 1: "strip (unquote p ?x) = ?x"
    by (simp add: unquote_def strip_def strip_chars_def is_space_def)
  have 2: "re_sub (TRAFFIC p) [] ?x = ?x"
    by (simp add: canon_patterns canon_classes)
  have 3: "re_sub OWNER_TAG [] ?x = ?x"
    by (simp add: canon_patterns canon_classes)
  have 4: "re_sub PAREN_TOKEN [] ?x = ?y"
    by (simp add: canon_patterns canon_classes)
  have 5: "re_sub SPACES [32] ?y = ?y"
    by (simp add: canon_patterns canon_classes)
  have 6: "take 255 (strip ?y) = ?y"
    by (simp add: strip_def strip_chars_def is_space_def)
  show ?thesis
    unfolding canonicalize_name_def Let_def 1 2 3 4 5 6 ..
qed

lemma ex_quoted_1:
  "canonicalize_name p [37, 50, 53, 52, 49] = [37, 52, 49]"
proof -
  let ?x = "[37, 50, 53, 52, 49] :: ustr"
  let ?y = "[37, 52, 49] :: ustr"
  have 1: "strip (unquote p ?x) = ?y"
    by (simp add: unquote_def unquote_to_bytes_def utf8_decode_def hexval_def
        strip_def strip_chars_def is_space_def)
  have 2: "re_sub (TRAFFIC p) [] ?y = ?y"
    by (simp add: canon_patterns canon_classes)
  have 3: "re_sub OWNER_TAG [] ?y = ?y"
    by (simp add: canon_patterns canon_classes)
  have 4: "re_sub PAREN_TOKEN [] ?y = ?y"
    by (simp add: canon_patterns canon_classes)
  have 5: "re_sub SPACES [32] ?y = ?y"
    by (simp add: canon_patterns canon_classes)
  have 6: "take 255 (strip ?y) = ?y"
    by (simp add: strip_def strip_chars_def is_space_def)
  show ?thesis
    unfolding canonicalize_name_def Let_def 1 2 3 4 5 6 ..
qed

lemma ex_quoted_2:
  "canonicalize_name p [37, 52, 49] = [65]"
proof -
  let ?x = "[37, 52, 49] :: ustr"
  let ?y = "[65] :: ustr"
  have 1: "strip (unquote p ?x) = ?y"
    by (simp add: unquote_def unquote_to_bytes_def utf8_decode_def hexval_def
        strip_def strip_chars_def is_space_def)
  have 2: "re_sub (TRAFFIC p) [] ?y = ?y"
    by (simp add: canon_patterns canon_classes)
  have 3: "re_sub OWNER_TAG [] ?y = ?y"
    by (simp add: canon_patterns canon_classes)
  have 4: "re_sub PAREN_TOKEN [] ?y = ?y"
    by (simp add: canon_patterns canon_classes)
  have 5: "re_sub SPACES [32] ?y = ?y"
    by (simp add: canon_patterns canon_classes)
  have 6: "take 255 (strip ?y) = ?y"
    by (simp add: strip_def strip_chars_def is_space_def)
  show ?thesis
    unfolding canonicalize_name_def Let_def 1 2 3 4 5 6 ..
qed

text \<open>
  C8. \<open>canonicalize_name\<close> is not idempotent, whatever the library decides for text
  outside ASCII. The name \<open>a((abc)def)\<close> loses its inner token and becomes \<open>a(def)\<close>, which
  is itself a token in parentheses after a name: canonicalized again it becomes \<open>a\<close>. The
  name \<open>%2541\<close> is percent-decoded to \<open>%41\<close>, and that once more to \<open>A\<close>.
\<close>

theorem canonicalize_name_not_idempotent:
  "canonicalize_name p (ustr ''a((abc)def)'') = ustr ''a(def)''
   \<and> canonicalize_name p (canonicalize_name p (ustr ''a((abc)def)'')) = ustr ''a''
   \<and> canonicalize_name p (ustr ''%2541'') = ustr ''%41''
   \<and> canonicalize_name p (canonicalize_name p (ustr ''%2541'')) = ustr ''A''"
proof -
  have u: "ustr ''a((abc)def)'' = [97, 40, 40, 97, 98, 99, 41, 100, 101, 102, 41]"
    "ustr ''a(def)'' = [97, 40, 100, 101, 102, 41]" "ustr ''a'' = [97]"
    "ustr ''%2541'' = [37, 50, 53, 52, 49]" "ustr ''%41'' = [37, 52, 49]" "ustr ''A'' = [65]"
    by (simp_all add: ustr_def)
  show ?thesis
    unfolding u ex_nested_1 ex_nested_2 ex_quoted_1 ex_quoted_2 by simp
qed

end
